theory Spec2Isabelle
  imports Complex_Main "HOL-Library.Signed_Division"
begin

section \<open>Void-and-cluster blue noise generator: data model\<close>

text \<open>
  The generator of \<^verbatim>\<open>BlueNoise::dispatch\<close> and its GLSL compute shaders.  Positions are
  GLSL \<^verbatim>\<open>ivec2\<close> values.  Texel values and weights are 32-bit floats in the source; the
  search only compares them, negates them and replaces them by the constant \<^verbatim>\<open>-1e9f\<close>
  (exactly representable), so they are modelled as reals (no NaN, no infinity).
\<close>

type_synonym ivec2 = "int \<times> int"

text \<open>One slot of the shared arrays \<^verbatim>\<open>weights[]\<close> and \<^verbatim>\<open>positions[]\<close>, which the shaders
  always write together at the same index; also one \<^verbatim>\<open>ivec4\<close> entry of the position and
  sequence buffers (position in \<^verbatim>\<open>xy\<close>, the weight's bits in \<^verbatim>\<open>z\<close>).\<close>

type_synonym lane = "real \<times> ivec2"

record texture =
  tex_width :: nat
  tex_height :: nat
  tex_data :: "ivec2 \<Rightarrow> real"

definition in_texture :: "texture \<Rightarrow> ivec2 \<Rightarrow> bool" where
  "in_texture t p \<longleftrightarrow>
     0 \<le> fst p \<and> fst p < int (tex_width t) \<and> 0 \<le> snd p \<and> snd p < int (tex_height t)"

text \<open>A fetch outside the texture returns zero and a store outside it is dropped
  (robust access); inside, they read and write the texel.\<close>

definition texelFetch :: "texture \<Rightarrow> ivec2 \<Rightarrow> real" where
  "texelFetch t p = (if in_texture t p then tex_data t p else 0)"

definition imageStore :: "texture \<Rightarrow> ivec2 \<Rightarrow> real \<Rightarrow> texture" where
  "imageStore t p v = (if in_texture t p then t\<lparr>tex_data := (tex_data t)(p := v)\<rparr> else t)"

definition BatchSize :: nat where "BatchSize = 512"
definition SampleGroupSize :: nat where "SampleGroupSize = 16"
definition PositionGroupSize :: nat where "PositionGroupSize = 256"
definition RenderGroupSize :: nat where "RenderGroupSize = 16"
definition InverseGroupSize :: nat where "InverseGroupSize = 16"

definition Maxu32 :: nat where "Maxu32 = 4294967295"

text \<open>The weight \<^verbatim>\<open>-1e9f\<close> of the shaders.\<close>

definition minus_1e9 :: real where "minus_1e9 = - 1000000000"

text \<open>\<^verbatim>\<open>UDIV(A, B)\<close> of the position shader, and \<^verbatim>\<open>udiv\<close> of the host code.\<close>

definition udiv :: "nat \<Rightarrow> nat \<Rightarrow> nat" where
  "udiv a b = (a + b - 1) div b"

section \<open>Extremal search\<close>

subsection \<open>Per-pixel weight (\<^verbatim>\<open>MIN_SAMPLE_SHADER\<close> / \<^verbatim>\<open>MAX_SAMPLE_SHADER\<close>)\<close>

datatype sample_kernel = MIN_SAMPLE | MAX_SAMPLE

fun sample_weight :: "sample_kernel \<Rightarrow> real \<Rightarrow> real \<Rightarrow> real" where
  "sample_weight MIN_SAMPLE val weight = (if val > 1 / 2 then minus_1e9 else - weight)"
| "sample_weight MAX_SAMPLE val weight = (if val < 1 / 2 then minus_1e9 else weight)"

subsection \<open>Shared-memory tree reduction\<close>

text \<open>
  One thread of one round of the loop \<^verbatim>\<open>for(offset = 1u; offset < GROUP_SIZE; offset <<= 1u)\<close>:
  thread \<open>local_id\<close> compares slot \<open>offset * (2 * local_id)\<close> with the slot \<open>offset\<close> further
  and keeps the larger weight, the left one on a tie.  The argument \<open>n\<close> is the size of the
  shared arrays.
\<close>

definition reduce_thread :: "nat \<Rightarrow> nat \<Rightarrow> nat \<Rightarrow> lane list \<Rightarrow> lane list" where
  "reduce_thread n offset local_id sh =
     (let index = offset * (2 * local_id) in
      if index + offset < n then
        (if fst (sh ! index) < fst (sh ! (index + offset))
         then sh[index := sh ! (index + offset)] else sh)
      else sh)"

text \<open>A round runs every thread of the group between two barriers.  Within a round no two
  threads touch the same slot, so the threads are run one after the other.\<close>

definition reduce_round :: "nat \<Rightarrow> nat \<Rightarrow> lane list \<Rightarrow> lane list" where
  "reduce_round n offset sh = fold (reduce_thread n offset) [0..<n] sh"

function reduce_loop :: "nat \<Rightarrow> nat \<Rightarrow> lane list \<Rightarrow> lane list" where
  "reduce_loop n offset sh =
     (if 0 < offset \<and> offset < n then reduce_loop n (2 * offset) (reduce_round n offset sh)
      else sh)"
  by pat_completeness auto
termination
  by (relation "measure (\<lambda>(n, offset, sh). n - offset)") auto

declare reduce_loop.simps [simp del]

subsection \<open>Tile stage: one work group of the sample shader\<close>

text \<open>Thread \<open>local_id\<close> of group \<open>group_id\<close> has
  \<^verbatim>\<open>gl_GlobalInvocationID = group_id * GROUP_SIZE + (local_id mod GROUP_SIZE, local_id div GROUP_SIZE)\<close>.\<close>

definition global_invocation :: "nat \<Rightarrow> nat \<times> nat \<Rightarrow> nat \<Rightarrow> ivec2" where
  "global_invocation gs group_id local_id =
     (int (gs * fst group_id + local_id mod gs), int (gs * snd group_id + local_id div gs))"

definition sample_lane :: "sample_kernel \<Rightarrow> texture \<Rightarrow> texture \<Rightarrow> nat \<times> nat \<Rightarrow> nat \<Rightarrow> lane" where
  "sample_lane mode in_texture_0 in_texture_1 group_id local_id =
     (let global_id = global_invocation SampleGroupSize group_id local_id;
          val = texelFetch in_texture_0 global_id;
          weight = texelFetch in_texture_1 global_id
      in (sample_weight mode val weight, global_id))"

definition sample_group :: "sample_kernel \<Rightarrow> texture \<Rightarrow> texture \<Rightarrow> nat \<times> nat \<Rightarrow> lane" where
  "sample_group mode in_texture_0 in_texture_1 group_id =
     (let n = SampleGroupSize * SampleGroupSize;
          sh = map (sample_lane mode in_texture_0 in_texture_1 group_id) [0..<n]
      in reduce_loop n 1 sh ! 0)"

text \<open>The work groups of \<^verbatim>\<open>compute.dispatch(texture)\<close>: enough groups of \<open>gs \<times> gs\<close> threads to
  cover the texture.\<close>

definition work_groups :: "nat \<Rightarrow> texture \<Rightarrow> (nat \<times> nat) list" where
  "work_groups gs t =
     concat (map (\<lambda>gy. map (\<lambda>gx. (gx, gy)) [0..<udiv (tex_width t) gs])
                 [0..<udiv (tex_height t) gs])"

text \<open>The sample shader over the whole texture: every group writes its candidate into its own
  slot \<open>num_groups * group_id.y + group_id.x\<close> of the position buffer.\<close>

definition sample_shader ::
  "sample_kernel \<Rightarrow> nat \<Rightarrow> texture \<Rightarrow> texture \<Rightarrow> (nat \<Rightarrow> lane) \<Rightarrow> (nat \<Rightarrow> lane)" where
  "sample_shader mode num_groups in_texture_0 in_texture_1 position_buffer =
     fold (\<lambda>group_id buf.
             buf(num_groups * snd group_id + fst group_id :=
                   sample_group mode in_texture_0 in_texture_1 group_id))
          (work_groups SampleGroupSize in_texture_0) position_buffer"

subsection \<open>Global stage (\<^verbatim>\<open>POSITION_SHADER\<close>)\<close>

definition position_lane :: "nat \<Rightarrow> (nat \<Rightarrow> lane) \<Rightarrow> nat \<Rightarrow> lane" where
  "position_lane num_positions position_buffer local_id =
     fold (\<lambda>i acc.
             let index = PositionGroupSize * i + local_id in
             if index < num_positions then
               (if fst acc < fst (position_buffer index) then position_buffer index else acc)
             else acc)
          [0..<udiv num_positions PositionGroupSize] (minus_1e9, (0, 0))"

definition position_shader :: "nat \<Rightarrow> (nat \<Rightarrow> lane) \<Rightarrow> (nat \<Rightarrow> lane)" where
  "position_shader num_positions position_buffer =
     (let sh = map (position_lane num_positions position_buffer) [0..<PositionGroupSize]
      in position_buffer(0 := reduce_loop PositionGroupSize 1 sh ! 0))"

text \<open>The two dispatches of \<^verbatim>\<open>dispatch_kernel\<close> that make one search: the sample shader over
  \<open>noise_texture\<close> (pattern) and \<open>backward_texture\<close> (energy), then the position shader in
  one work group.  Slot 0 of the result holds the winner.\<close>

definition extremal_search ::
  "sample_kernel \<Rightarrow> texture \<Rightarrow> texture \<Rightarrow> (nat \<Rightarrow> lane) \<Rightarrow> (nat \<Rightarrow> lane)" where
  "extremal_search mode noise_texture backward_texture position_buffer =
     (let num_groups = udiv (tex_width noise_texture) SampleGroupSize;
          buf = sample_shader mode num_groups noise_texture backward_texture position_buffer;
          num_positions = num_groups * udiv (tex_height noise_texture) SampleGroupSize
      in position_shader num_positions buf)"

section \<open>Size adaptation\<close>

definition tex_size :: "texture \<Rightarrow> ivec2" where
  "tex_size t = (int (tex_width t), int (tex_height t))"

text \<open>
  The position arithmetic of \<^verbatim>\<open>UPSCALE_SHADER\<close> and of \<^verbatim>\<open>UPDATE_SHADER\<close>, each with the
  names of its own shader.  GLSL \<^verbatim>\<open>/\<close> and \<^verbatim>\<open>%\<close> on \<^verbatim>\<open>int\<close> are taken to truncate toward
  zero (\<open>sdiv\<close>, \<open>smod\<close>).
\<close>

definition upscale_position :: "ivec2 \<Rightarrow> ivec2 \<Rightarrow> ivec2 \<Rightarrow> ivec2" where
  "upscale_position surface_size texture_size global_id =
     (let offset_x = (fst surface_size - fst texture_size) sdiv 2;
          offset_y = (snd surface_size - snd texture_size) sdiv 2;
          position_x = (if fst global_id < offset_x then fst global_id + fst texture_size
                        else fst global_id);
          position_y = (if snd global_id < offset_y then snd global_id + snd texture_size
                        else snd global_id)
      in ((position_x - offset_x) smod fst texture_size,
          (position_y - offset_y) smod snd texture_size))"

definition update_position :: "ivec2 \<Rightarrow> ivec2 \<Rightarrow> ivec2 \<Rightarrow> ivec2" where
  "update_position texture_size surface_size position =
     (let offset_x = (fst texture_size - fst surface_size) sdiv 2;
          offset_y = (snd texture_size - snd surface_size) sdiv 2;
          position_x = (if fst position < offset_x then fst position + fst surface_size
                        else fst position);
          position_y = (if snd position < offset_y then snd position + snd surface_size
                        else snd position)
      in ((position_x - offset_x) smod fst surface_size,
          (position_y - offset_y) smod snd surface_size))"

text \<open>The global invocation ids of \<^verbatim>\<open>compute.dispatch(texture)\<close> with groups of \<open>gs \<times> gs\<close>
  threads.  Every invocation of the per-pixel shaders below writes only its own texel, so the
  invocations are run one after the other.\<close>

definition invocations :: "nat \<Rightarrow> texture \<Rightarrow> ivec2 list" where
  "invocations gs t =
     concat (map (\<lambda>group_id. map (global_invocation gs group_id) [0..<gs * gs])
                 (work_groups gs t))"

definition upscale_shader :: "texture \<Rightarrow> texture \<Rightarrow> texture" where
  "upscale_shader in_tex out_surface =
     fold (\<lambda>global_id out.
             imageStore out global_id
               (texelFetch in_tex
                  (upscale_position (tex_size out_surface) (tex_size in_tex) global_id)))
          (invocations RenderGroupSize out_surface) out_surface"

definition inverse_shader :: "texture \<Rightarrow> texture \<Rightarrow> texture" where
  "inverse_shader in_tex out_surface =
     fold (\<lambda>global_id out.
             if fst global_id < fst (tex_size in_tex) \<and> snd global_id < snd (tex_size in_tex)
             then imageStore out global_id (1 - texelFetch in_tex global_id) else out)
          (invocations InverseGroupSize out_surface) out_surface"

section \<open>Update of the pattern and of the rank sequence (\<^verbatim>\<open>UPDATE_SHADER\<close>)\<close>

definition update_shader ::
  "ivec2 \<Rightarrow> real \<Rightarrow> nat \<Rightarrow> texture \<Rightarrow> (nat \<Rightarrow> lane) \<Rightarrow> (nat \<Rightarrow> lane) \<Rightarrow> texture \<times> (nat \<Rightarrow> lane)" where
  "update_shader texture_size val index out_surface sequence_buffer position_buffer =
     (let position = position_buffer 0;
          xy = update_position texture_size (tex_size out_surface) (snd position);
          position = (fst position, xy)
      in (imageStore out_surface xy val,
          if index \<noteq> Maxu32 then sequence_buffer(index := position) else sequence_buffer))"

section \<open>One greedy step (\<^verbatim>\<open>BlueNoise::dispatch_kernel\<close>)\<close>

text \<open>The textures and buffers a generation run works on.  \<open>noise_texture\<close> and \<open>copy_texture\<close>
  are the two patterns of \<^verbatim>\<open>dispatch\<close>; a step is told which of them it updates.\<close>

record state =
  noise_texture :: texture
  copy_texture :: texture
  backward_texture :: texture
  upscale_texture :: texture
  sequence_buffer :: "nat \<Rightarrow> lane"
  position_buffer :: "nat \<Rightarrow> lane"

datatype target = NoiseTexture | CopyTexture

fun get_texture :: "target \<Rightarrow> state \<Rightarrow> texture" where
  "get_texture NoiseTexture st = noise_texture st"
| "get_texture CopyTexture st = copy_texture st"

fun set_texture :: "target \<Rightarrow> texture \<Rightarrow> state \<Rightarrow> state" where
  "set_texture NoiseTexture t st = st\<lparr>noise_texture := t\<rparr>"
| "set_texture CopyTexture t st = st\<lparr>copy_texture := t\<rparr>"

text \<open>
  The Fourier transform is an external component.  \<open>energy t\<close> stands for the content of
  \<open>backward_texture\<close> after the forward transform of \<open>t\<close>, the filter pass against the
  convolution texture and the backward transform; the transform is taken to succeed.
\<close>

definition dispatch_kernel ::
  "(texture \<Rightarrow> ivec2 \<Rightarrow> real) \<Rightarrow> target \<Rightarrow> sample_kernel \<Rightarrow> real \<Rightarrow> nat \<Rightarrow> state \<Rightarrow> state" where
  "dispatch_kernel energy tgt mode val index st =
     (let tex = get_texture tgt st;
          st1 = (if tex_size tex \<noteq> tex_size (backward_texture st)
                 then st\<lparr>upscale_texture := upscale_shader tex (upscale_texture st)\<rparr> else st);
          noise = (if tex_size tex \<noteq> tex_size (backward_texture st)
                   then upscale_texture st1 else tex);
          st2 = st1\<lparr>backward_texture := (backward_texture st1)\<lparr>tex_data := energy noise\<rparr>\<rparr>;
          st3 = st2\<lparr>position_buffer :=
                      extremal_search mode noise (backward_texture st2) (position_buffer st2)\<rparr>;
          (tex', seq') = update_shader (tex_size noise) val index tex
                           (sequence_buffer st3) (position_buffer st3)
      in set_texture tgt tex' (st3\<lparr>sequence_buffer := seq'\<rparr>))"

section \<open>The phases of \<^verbatim>\<open>BlueNoise::dispatch\<close>\<close>

text \<open>
  Every phase is a loop of the shape
  \<^verbatim>\<open>for(i = a; i < n;) { for(end = min(i + BatchSize, n); i < end; i++) body(i); flip; }\<close>.
  The counters are \<^verbatim>\<open>uint32_t\<close>; they are modelled as naturals (no wrap-around below
  \<open>2^32\<close> pixels).
\<close>

function inner_loop :: "(nat \<Rightarrow> 's \<Rightarrow> 's) \<Rightarrow> nat \<Rightarrow> nat \<Rightarrow> 's \<Rightarrow> nat \<times> 's" where
  "inner_loop body i e s = (if i < e then inner_loop body (i + 1) e (body i s) else (i, s))"
  by pat_completeness auto
termination
  by (relation "measure (\<lambda>(body, i, e, s). e - i)") auto

declare inner_loop.simps [simp del]

function batch_loop :: "(nat \<Rightarrow> 's \<Rightarrow> 's) \<Rightarrow> nat \<Rightarrow> nat \<Rightarrow> 's \<Rightarrow> 's" where
  "batch_loop body i n s =
     (if i < n then
        (let r = inner_loop body i (min (i + BatchSize) n) s
         in if i < fst r then batch_loop body (fst r) n (snd r) else snd r)
      else s)"
  by pat_completeness auto
termination
  by (relation "measure (\<lambda>(body, i, n, s). n - i)") auto

declare batch_loop.simps [simp del]

text \<open>\<^verbatim>\<open>// create initial sequence\<close>\<close>

definition initial_sequence :: "(texture \<Rightarrow> ivec2 \<Rightarrow> real) \<Rightarrow> nat \<Rightarrow> state \<Rightarrow> state" where
  "initial_sequence energy num_positions st =
     batch_loop (\<lambda>i st.
         dispatch_kernel energy NoiseTexture MAX_SAMPLE 0 Maxu32
           (dispatch_kernel energy NoiseTexture MIN_SAMPLE 1 Maxu32 st))
       0 num_positions st"

text \<open>\<^verbatim>\<open>// first phase\<close>\<close>

definition first_phase :: "(texture \<Rightarrow> ivec2 \<Rightarrow> real) \<Rightarrow> nat \<Rightarrow> state \<Rightarrow> state" where
  "first_phase energy num_positions st =
     batch_loop (\<lambda>i st.
         dispatch_kernel energy CopyTexture MAX_SAMPLE 0 (num_positions - i - 1) st)
       0 num_positions (st\<lparr>copy_texture := noise_texture st\<rparr>)"

text \<open>\<^verbatim>\<open>// second phase\<close>\<close>

definition second_phase :: "(texture \<Rightarrow> ivec2 \<Rightarrow> real) \<Rightarrow> nat \<Rightarrow> nat \<Rightarrow> state \<Rightarrow> state" where
  "second_phase energy num_positions half_pixels st =
     batch_loop (\<lambda>i st. dispatch_kernel energy NoiseTexture MIN_SAMPLE 1 i st)
       num_positions half_pixels st"

text \<open>\<^verbatim>\<open>// third phase\<close>\<close>

definition third_phase :: "(texture \<Rightarrow> ivec2 \<Rightarrow> real) \<Rightarrow> nat \<Rightarrow> nat \<Rightarrow> state \<Rightarrow> state" where
  "third_phase energy half_pixels num_pixels st =
     batch_loop (\<lambda>i st. dispatch_kernel energy CopyTexture MAX_SAMPLE 0 i st)
       half_pixels num_pixels
       (st\<lparr>copy_texture := inverse_shader (noise_texture st) (copy_texture st)\<rparr>)"

text \<open>The three rank-assigning phases of one layer.\<close>

definition layer_phases :: "(texture \<Rightarrow> ivec2 \<Rightarrow> real) \<Rightarrow> nat \<Rightarrow> nat \<Rightarrow> state \<Rightarrow> state" where
  "layer_phases energy num_positions num_pixels st =
     third_phase energy (num_pixels div 2) num_pixels
       (second_phase energy num_positions (num_pixels div 2)
          (first_phase energy num_positions st))"

section \<open>Sequential scan\<close>

text \<open>The comparison of the shaders: the right operand replaces the left one only when its
  weight is strictly greater.\<close>

definition best :: "lane \<Rightarrow> lane \<Rightarrow> lane" where
  "best a b = (if fst a < fst b then b else a)"

text \<open>A loop over a non-empty list of candidates that starts from the first one.\<close>

definition scan_best :: "lane list \<Rightarrow> lane" where
  "scan_best xs = foldl best (hd xs) (tl xs)"

text \<open>The candidate of one pixel: its weight under the active shader and its position.\<close>

definition pixel_lane :: "sample_kernel \<Rightarrow> texture \<Rightarrow> texture \<Rightarrow> ivec2 \<Rightarrow> lane" where
  "pixel_lane mode t0 t1 p = (sample_weight mode (texelFetch t0 p) (texelFetch t1 p), p)"

text \<open>The slots of the position buffer that thread \<open>local_id\<close> of the position shader reads,
  in the order it reads them.\<close>

definition lane_indices :: "nat \<Rightarrow> nat \<Rightarrow> nat list" where
  "lane_indices num_positions local_id =
     filter (\<lambda>index. index < num_positions)
       (map (\<lambda>i. PositionGroupSize * i + local_id) [0..<udiv num_positions PositionGroupSize])"

text \<open>The order in which the two stages together visit the pixels: by thread of the position
  shader, then by tile of that thread, then by thread within the tile.\<close>

definition search_order :: "texture \<Rightarrow> ivec2 list" where
  "search_order t =
     (let num_groups = udiv (tex_width t) SampleGroupSize;
          num_positions = num_groups * udiv (tex_height t) SampleGroupSize
      in concat (map (\<lambda>index. map (global_invocation SampleGroupSize
                                      (index mod num_groups, index div num_groups))
                                 [0..<SampleGroupSize * SampleGroupSize])
                     (concat (map (lane_indices num_positions) [0..<PositionGroupSize]))))"

section \<open>Invariants of a generation run\<close>

text \<open>A logical extent \<open>n\<close> fits a padded extent \<open>N\<close> when the offset \<open>(N - n) div 2\<close> of the
  size adaptation does not exceed \<open>n\<close>; then the position arithmetic of the shaders stays
  non-negative.\<close>

definition fits :: "nat \<Rightarrow> nat \<Rightarrow> bool" where
  "fits n N \<longleftrightarrow> 0 < n \<and> n \<le> N \<and> (N - n) div 2 \<le> n"

text \<open>The remap in closed form, with the mathematical (non-negative) modulo.\<close>

definition remap :: "nat \<Rightarrow> nat \<Rightarrow> int \<Rightarrow> int" where
  "remap N n p = (p - int ((N - n) div 2)) mod int n"

definition remap2 :: "texture \<Rightarrow> texture \<Rightarrow> ivec2 \<Rightarrow> ivec2" where
  "remap2 big small p = (remap (tex_width big) (tex_width small) (fst p),
                          remap (tex_height big) (tex_height small) (snd p))"

text \<open>A pattern: every texel is 0.0 (off) or 1.0 (on).\<close>

definition binary :: "texture \<Rightarrow> bool" where
  "binary t \<longleftrightarrow> (\<forall>p. in_texture t p \<longrightarrow> tex_data t p = 0 \<or> tex_data t p = 1)"

definition on_pixels :: "texture \<Rightarrow> ivec2 set" where
  "on_pixels t = {p. in_texture t p \<and> 1 / 2 < tex_data t p}"

text \<open>The energy of a pattern stays inside the range that the weight \<^verbatim>\<open>-1e9f\<close> bounds.\<close>

definition bounded_energy :: "(texture \<Rightarrow> ivec2 \<Rightarrow> real) \<Rightarrow> bool" where
  "bounded_energy energy \<longleftrightarrow>
     (\<forall>t p. binary t \<longrightarrow> in_texture t p \<longrightarrow> \<bar>energy t p\<bar> < 1000000000)"

text \<open>The geometry \<^verbatim>\<open>dispatch\<close> sets up: padded extents that are multiples of the tile size, both
  patterns of the logical size, and an upscale texture of the padded size when the sizes
  differ.\<close>

definition wf_state :: "state \<Rightarrow> bool" where
  "wf_state st \<longleftrightarrow>
     SampleGroupSize dvd tex_width (backward_texture st) \<and>
     SampleGroupSize dvd tex_height (backward_texture st) \<and>
     (tex_size (noise_texture st) \<noteq> tex_size (backward_texture st) \<longrightarrow>
        tex_size (upscale_texture st) = tex_size (backward_texture st)) \<and>
     tex_size (copy_texture st) = tex_size (noise_texture st) \<and>
     fits (tex_width (noise_texture st)) (tex_width (backward_texture st)) \<and>
     fits (tex_height (noise_texture st)) (tex_height (backward_texture st))"

text \<open>The value each shader variant is dispatched with: the void search (\<^verbatim>\<open>min_sample_kernel\<close>)
  stores 1.0, the cluster search (\<^verbatim>\<open>max_sample_kernel\<close>) stores 0.0.\<close>

definition store_value :: "sample_kernel \<Rightarrow> real" where
  "store_value mode = (case mode of MIN_SAMPLE \<Rightarrow> 1 | MAX_SAMPLE \<Rightarrow> 0)"

text \<open>The pixels whose weight the sample shader does not replace by \<^verbatim>\<open>-1e9f\<close>.\<close>

definition eligible :: "sample_kernel \<Rightarrow> texture \<Rightarrow> ivec2 set" where
  "eligible mode t =
     {p. in_texture t p \<and> (case mode of MIN_SAMPLE \<Rightarrow> \<not> 1 / 2 < tex_data t p
                                      | MAX_SAMPLE \<Rightarrow> \<not> tex_data t p < 1 / 2)}"

text \<open>The position recorded in the sequence buffer for a rank.\<close>

definition rank_position :: "state \<Rightarrow> nat \<Rightarrow> ivec2" where
  "rank_position st r = snd (sequence_buffer st r)"

section \<open>Reference definitions and sample inputs\<close>



definition uniform_texture :: "nat \<Rightarrow> nat \<Rightarrow> real \<Rightarrow> texture" where
  "uniform_texture w h v = \<lparr>tex_width = w, tex_height = h, tex_data = (\<lambda>_. v)\<rparr>"

definition empty_buffer :: "nat \<Rightarrow> lane" where
  "empty_buffer = (\<lambda>_. (0, (0, 0)))"

text \<open>The textures and buffers as \<^verbatim>\<open>dispatch\<close> has them before the first step: the thresholded
  input as \<open>noise_texture\<close>, the other textures and the buffers freshly created.\<close>

definition start_state :: "texture \<Rightarrow> nat \<Rightarrow> nat \<Rightarrow> state" where
  "start_state input_image npot_width npot_height =
     \<lparr>noise_texture = input_image,
      copy_texture = uniform_texture (tex_width input_image) (tex_height input_image) 0,
      backward_texture = uniform_texture npot_width npot_height 0,
      upscale_texture = uniform_texture npot_width npot_height 0,
      sequence_buffer = empty_buffer,
      position_buffer = empty_buffer\<rparr>"

text \<open>A sample energy: the response of a kernel concentrated at the origin, under which the
  energy of a pixel is its own value.\<close>

definition local_energy :: "texture \<Rightarrow> ivec2 \<Rightarrow> real" where
  "local_energy t p = texelFetch t p"


text \<open>The weights as the specification words the two policies: the cluster search (the shader
  dispatched with value 0.0) on \<open>-energy\<close> over the on-pixels, the void search (dispatched with
  1.0) on \<open>+energy\<close> over the off-pixels.\<close>

fun claimed_weight :: "sample_kernel \<Rightarrow> real \<Rightarrow> real \<Rightarrow> real" where
  "claimed_weight MAX_SAMPLE val energy = (if val < 1 / 2 then minus_1e9 else - energy)"
| "claimed_weight MIN_SAMPLE val energy = (if val > 1 / 2 then minus_1e9 else energy)"

text \<open>One iteration of the loop that creates the initial sequence: the void search with value
  1.0, then the cluster search with value 0.0, both with index \<^verbatim>\<open>Maxu32\<close>.\<close>

definition swap_pair :: "(texture \<Rightarrow> ivec2 \<Rightarrow> real) \<Rightarrow> state \<Rightarrow> state" where
  "swap_pair energy st =
     dispatch_kernel energy NoiseTexture MAX_SAMPLE 0 Maxu32
       (dispatch_kernel energy NoiseTexture MIN_SAMPLE 1 Maxu32 st)"

text \<open>The swap pair in the order the specification words it: the cluster search first, then the
  void search; and the initial sequence made of such pairs.\<close>

definition claimed_swap_pair :: "(texture \<Rightarrow> ivec2 \<Rightarrow> real) \<Rightarrow> state \<Rightarrow> state" where
  "claimed_swap_pair energy st =
     dispatch_kernel energy NoiseTexture MIN_SAMPLE 1 Maxu32
       (dispatch_kernel energy NoiseTexture MAX_SAMPLE 0 Maxu32 st)"

definition claimed_initial_sequence ::
  "(texture \<Rightarrow> ivec2 \<Rightarrow> real) \<Rightarrow> nat \<Rightarrow> state \<Rightarrow> state" where
  "claimed_initial_sequence energy num_positions st =
     (claimed_swap_pair energy ^^ num_positions) st"

text \<open>The second phase as the specification words it: on the pattern the first phase produced
  (\<open>copy_texture\<close>).\<close>

definition claimed_second_phase ::
  "(texture \<Rightarrow> ivec2 \<Rightarrow> real) \<Rightarrow> nat \<Rightarrow> nat \<Rightarrow> state \<Rightarrow> state" where
  "claimed_second_phase energy num_positions half_pixels st =
     batch_loop (\<lambda>i st. dispatch_kernel energy CopyTexture MIN_SAMPLE 1 i st)
       num_positions half_pixels st"

text \<open>A pattern with the single on-pixel \<open>q\<close>.\<close>

definition dot_texture :: "nat \<Rightarrow> nat \<Rightarrow> ivec2 \<Rightarrow> texture" where
  "dot_texture w h q = \<lparr>tex_width = w, tex_height = h, tex_data = (\<lambda>p. if p = q then 1 else 0)\<rparr>"

text \<open>The energy stays inside the range that the weight \<^verbatim>\<open>-1e9f\<close> bounds, at every pixel of
  the searched texture.\<close>

definition energy_in_range :: "texture \<Rightarrow> texture \<Rightarrow> bool" where
  "energy_in_range t0 t1 \<longleftrightarrow> (\<forall>p. in_texture t0 p \<longrightarrow> \<bar>texelFetch t1 p\<bar> < 1000000000)"

section \<open>The whole run (\<^verbatim>\<open>BlueNoise::dispatch\<close>)\<close>

subsection \<open>Floating-point arithmetic\<close>



subsection \<open>Padded size and seed\<close>





subsection \<open>Energy kernel\<close>







subsection \<open>Layers\<close>





subsection \<open>Resources and \<^verbatim>\<open>dispatch\<close>\<close>





subsection \<open>Reference definitions for the run\<close>

text \<open>Rounding to the nearest integer, ties to the even one.\<close>

definition round_even :: "real \<Rightarrow> int" where
  "round_even r =
     (if r - of_int \<lfloor>r\<rfloor> < 1 / 2 \<or> (r - of_int \<lfloor>r\<rfloor> = 1 / 2 \<and> even \<lfloor>r\<rfloor>) then \<lfloor>r\<rfloor> else \<lfloor>r\<rfloor> + 1)"

text \<open>Rounding to the nearest binary floating-point number with \<open>p\<close> significant bits and
  least exponent \<open>emin\<close> (subnormal below it), ties to even; overflow is not modelled.
  \<open>rnd32\<close> is IEEE 754 binary32 and \<open>rnd64\<close> is binary64.\<close>

definition rnd :: "nat \<Rightarrow> int \<Rightarrow> real \<Rightarrow> real" where
  "rnd p emin x =
     (if x = 0 then 0
      else (let u = 2 powi (max \<lfloor>log 2 \<bar>x\<bar>\<rfloor> emin - int p + 1)
            in of_int (round_even (x / u)) * u))"

definition rnd32 :: "real \<Rightarrow> real" where
  "rnd32 = rnd 24 (- 126)"

definition rnd64 :: "real \<Rightarrow> real" where
  "rnd64 = rnd 53 (- 1022)"








section \<open>Properties of the tree reduction\<close>

lemma best_assoc: "best (best a b) c = best a (best b c)"
  by (auto simp: best_def)

lemma length_reduce_thread [simp]: "length (reduce_thread n offset t sh) = length sh"
  by (simp add: reduce_thread_def Let_def)

lemma length_fold_reduce_thread [simp]:
  "length (fold (reduce_thread n offset) ts sh) = length sh"
  by (induction ts arbitrary: sh) auto

lemma length_reduce_round [simp]: "length (reduce_round n offset sh) = length sh"
  by (simp add: reduce_round_def)


lemma foldl_best_assoc: "foldl best (best a b) xs = best a (foldl best b xs)"
  by (induction xs arbitrary: b) (simp_all add: best_assoc)

lemma scan_best_append:
  "xs \<noteq> [] \<Longrightarrow> ys \<noteq> [] \<Longrightarrow> scan_best (xs @ ys) = best (scan_best xs) (scan_best ys)"
  by (cases xs; cases ys) (simp_all add: scan_best_def foldl_best_assoc [symmetric])

lemma reduce_thread_nth:
  assumes "length sh = n" "i < n"
  shows "reduce_thread n offset t sh ! i =
     (if i = offset * (2 * t) \<and> i + offset < n then best (sh ! i) (sh ! (i + offset)) else sh ! i)"
  using assms by (auto simp: reduce_thread_def Let_def best_def)

lemma fold_reduce_thread_nth:
  assumes "0 < offset" "length sh = n"
  shows "\<forall>i<n. fold (reduce_thread n offset) [0..<k] sh ! i =
     (if (2 * offset) dvd i \<and> i div (2 * offset) < k \<and> i + offset < n
      then best (sh ! i) (sh ! (i + offset)) else sh ! i)"
proof (induction k)
  case 0
  then show ?case by simp
next
  case (Suc k)
  let ?s = "fold (reduce_thread n offset) [0..<k] sh"
  have len: "length ?s = n" using assms by simp
  show ?case
  proof (intro allI impI)
    fix i assume i: "i < n"
    have step: "fold (reduce_thread n offset) [0..<Suc k] sh ! i =
        (if i = offset * (2 * k) \<and> i + offset < n then best (?s ! i) (?s ! (i + offset)) else ?s ! i)"
      using reduce_thread_nth [OF len i] by simp
    show "fold (reduce_thread n offset) [0..<Suc k] sh ! i =
       (if (2 * offset) dvd i \<and> i div (2 * offset) < Suc k \<and> i + offset < n
        then best (sh ! i) (sh ! (i + offset)) else sh ! i)"
    proof (cases "i = offset * (2 * k) \<and> i + offset < n")
      case True
      then have ik: "i = 2 * offset * k" and lt: "i + offset < n" by auto
      have d: "i div (2 * offset) = k" using ik assms(1) by simp
      have nd: "\<not> (2 * offset) dvd (i + offset)"
      proof
        assume "(2 * offset) dvd (i + offset)"
        moreover have "(2 * offset) dvd i" using ik by simp
        ultimately have "(2 * offset) dvd offset" using dvd_add_right_iff by blast
        then show False using assms(1) by (auto dest: dvd_imp_le)
      qed
      have a: "?s ! i = sh ! i" using Suc i d by simp
      have b: "?s ! (i + offset) = sh ! (i + offset)" using Suc lt nd by simp
      show ?thesis using True step a b d ik by simp
    next
      case False
      have "?s ! i = (if (2 * offset) dvd i \<and> i div (2 * offset) < k \<and> i + offset < n
         then best (sh ! i) (sh ! (i + offset)) else sh ! i)" using Suc i by simp
      moreover have "(2 * offset) dvd i \<and> i div (2 * offset) < Suc k \<and> i + offset < n
          \<longleftrightarrow> (2 * offset) dvd i \<and> i div (2 * offset) < k \<and> i + offset < n"
      proof -
        { assume h: "(2 * offset) dvd i" "i div (2 * offset) = k" "i + offset < n"
          then have "i = offset * (2 * k)" by (auto simp: ac_simps)
          with False h have False by simp }
        then show ?thesis by (auto simp: less_Suc_eq)
      qed
      ultimately show ?thesis using step False by simp
    qed
  qed
qed

lemma reduce_round_nth:
  assumes "0 < offset" "length sh = n" "i < n"
  shows "reduce_round n offset sh ! i =
     (if (2 * offset) dvd i \<and> i + offset < n then best (sh ! i) (sh ! (i + offset)) else sh ! i)"
proof -
  have "i div (2 * offset) < n" using assms by (meson div_le_dividend le_less_trans)
  then show ?thesis
    using fold_reduce_thread_nth [OF assms(1,2), of n] assms(3) by (simp add: reduce_round_def)
qed

lemma scan_best_take_drop:
  assumes "0 < offset" "i + offset < length xs"
  shows "scan_best (take (2 * offset) (drop i xs)) =
         best (scan_best (take offset (drop i xs))) (scan_best (take offset (drop (i + offset) xs)))"
proof -
  have "take (2 * offset) (drop i xs) = take offset (drop i xs) @ take offset (drop (i + offset) xs)"
    by (simp add: mult_2 take_add add.commute)
  moreover have "take offset (drop i xs) \<noteq> []" "take offset (drop (i + offset) xs) \<noteq> []"
    using assms by auto
  ultimately show ?thesis by (simp add: scan_best_append)
qed

lemma reduce_loop_scan:
  "0 < offset \<Longrightarrow> length sh = n \<Longrightarrow>
   (\<forall>i<n. offset dvd i \<longrightarrow> sh ! i = scan_best (take offset (drop i orig))) \<Longrightarrow>
   length orig = n \<Longrightarrow> 0 < n \<Longrightarrow> reduce_loop n offset sh ! 0 = scan_best orig"
proof (induction n offset sh rule: reduce_loop.induct)
  case (1 n offset sh)
  note assms = "1.prems"(4,5)
  show ?case
  proof (cases "offset < n")
    case True
    let ?sh = "reduce_round n offset sh"
    have inv: "\<forall>i<n. (2 * offset) dvd i \<longrightarrow> ?sh ! i = scan_best (take (2 * offset) (drop i orig))"
    proof (intro allI impI)
      fix i assume i: "i < n" and d: "(2 * offset) dvd i"
      have od: "offset dvd i" using d by (meson dvd_mult_right)
      show "?sh ! i = scan_best (take (2 * offset) (drop i orig))"
      proof (cases "i + offset < n")
        case True
        have od': "offset dvd (i + offset)" using od by simp
        have "?sh ! i = best (sh ! i) (sh ! (i + offset))"
          using reduce_round_nth [OF "1.prems"(1,2) i] d True by simp
        also have "\<dots> = best (scan_best (take offset (drop i orig)))
                            (scan_best (take offset (drop (i + offset) orig)))"
          using "1.prems"(3) i od od' True by simp
        also have "\<dots> = scan_best (take (2 * offset) (drop i orig))"
        proof -
          have "i + offset < length orig" using True assms(1) by simp
          from scan_best_take_drop [OF "1.prems"(1) this] show ?thesis by (rule sym)
        qed
        finally show ?thesis .
      next
        case False
        have "?sh ! i = sh ! i"
          using reduce_round_nth [OF "1.prems"(1,2) i] False by simp
        also have "\<dots> = scan_best (take offset (drop i orig))" using "1.prems"(3) i od by simp
        also have "take offset (drop i orig) = take (2 * offset) (drop i orig)"
          using False assms(1) by simp
        finally show ?thesis .
      qed
    qed
    have "reduce_loop n (2 * offset) ?sh ! 0 = scan_best orig"
      using "1.IH" True "1.prems" inv by simp
    then show ?thesis using True "1.prems"(1) by (subst reduce_loop.simps) simp
  next
    case False
    have "sh ! 0 = scan_best (take offset orig)" using "1.prems"(3) assms(2) by simp
    then show ?thesis using False assms(1) by (subst reduce_loop.simps) simp
  qed
qed

lemma reduce_loop_1: 
  assumes "xs \<noteq> []"
  shows "reduce_loop (length xs) 1 xs ! 0 = scan_best xs"
proof -
  have "\<forall>i<length xs. 1 dvd i \<longrightarrow> xs ! i = scan_best (take 1 (drop i xs))"
    by (auto simp: scan_best_def take_Suc_conv_app_nth hd_drop_conv_nth)
  then show ?thesis using reduce_loop_scan [of 1 xs "length xs" xs] assms by simp
qed


lemma foldl_best_mem: "foldl best a xs \<in> insert a (set xs)"
  by (induction xs arbitrary: a) (auto simp: best_def)

lemma foldl_best_ge_init: "fst a \<le> fst (foldl best a xs)"
proof (induction xs arbitrary: a)
  case Nil
  then show ?case by simp
next
  case (Cons x xs)
  have "fst a \<le> fst (best a x)" by (simp add: best_def)
  also have "\<dots> \<le> fst (foldl best (best a x) xs)" by (rule Cons.IH)
  finally show ?case by simp
qed

lemma foldl_best_ge: "x \<in> set xs \<Longrightarrow> fst x \<le> fst (foldl best a xs)"
proof (induction xs arbitrary: a)
  case Nil
  then show ?case by simp
next
  case (Cons y ys)
  show ?case
  proof (cases "x = y")
    case True
    have "fst x \<le> fst (best a y)" using True by (simp add: best_def)
    also have "\<dots> \<le> fst (foldl best (best a y) ys)" by (rule foldl_best_ge_init)
    finally show ?thesis by simp
  next
    case False
    then show ?thesis using Cons by simp
  qed
qed

lemma best_absorb: "fst c \<le> fst a \<Longrightarrow> best a c = a"
  by (simp add: best_def)

lemma foldl_best_restart:
  "fst s \<le> fst a \<Longrightarrow> best a (foldl best s ys) = foldl best a ys"
  by (metis best_absorb foldl_best_assoc)

lemma foldl_best_lanes:
  "fst s \<le> fst a \<Longrightarrow>
   foldl best a (map (\<lambda>l. foldl best s (ys l)) ls) = foldl best a (concat (map ys ls))"
proof (induction ls arbitrary: a)
  case Nil
  then show ?case by simp
next
  case (Cons l ls)
  have "fst s \<le> fst (foldl best a (ys l))"
    using Cons.prems foldl_best_ge_init [of a "ys l"] by simp
  then show ?case using Cons by (simp add: foldl_best_restart)
qed

lemma scan_best_lanes:
  assumes "ls \<noteq> []"
  shows "scan_best (map (\<lambda>l. foldl best s (ys l)) ls) = foldl best s (concat (map ys ls))"
proof -
  obtain l ls' where ls: "ls = l # ls'" using assms by (cases ls) auto
  have "fst s \<le> fst (foldl best s (ys l))" by (rule foldl_best_ge_init)
  then show ?thesis
    using foldl_best_lanes [of s "foldl best s (ys l)" ys ls'] by (simp add: scan_best_def ls)
qed

lemma foldl_best_scans:
  "\<forall>xs\<in>set xss. xs \<noteq> [] \<Longrightarrow>
   foldl best a (map scan_best xss) = foldl best a (concat xss)"
proof (induction xss arbitrary: a)
  case Nil
  then show ?case by simp
next
  case (Cons xs xss)
  then obtain x xs' where xs: "xs = x # xs'" by (cases xs) auto
  have "best a (scan_best xs) = foldl best a xs"
    by (simp add: xs scan_best_def foldl_best_assoc [symmetric])
  then show ?case using Cons by simp
qed

lemma fold_best_filter:
  "fold (\<lambda>i acc. let index = f i in
            if index < n then (if fst acc < fst (buf index) then buf index else acc) else acc) is a
   = foldl best a (map buf (filter (\<lambda>index. index < n) (map f is)))"
  by (induction "is" arbitrary: a) (simp_all add: best_def Let_def)

lemma position_lane_scan:
  "position_lane np buf l = foldl best (minus_1e9, (0, 0)) (map buf (lane_indices np l))"
  unfolding position_lane_def lane_indices_def by (rule fold_best_filter)

lemma position_shader_0:
  "position_shader np buf 0 =
     foldl best (minus_1e9, (0, 0))
       (map buf (concat (map (lane_indices np) [0..<PositionGroupSize])))"
proof -
  let ?ls = "map (position_lane np buf) [0..<PositionGroupSize]"
  have ne: "?ls \<noteq> []" by (simp add: PositionGroupSize_def)
  have "position_shader np buf 0 = reduce_loop (length ?ls) 1 ?ls ! 0"
    by (simp add: position_shader_def Let_def)
  also have "\<dots> = scan_best ?ls" using ne by (rule reduce_loop_1)
  also have "?ls = map (\<lambda>l. foldl best (minus_1e9, (0, 0)) (map buf (lane_indices np l)))
                     [0..<PositionGroupSize]"
    by (simp add: position_lane_scan)
  also have "scan_best \<dots> =
     foldl best (minus_1e9, (0, 0))
       (concat (map (\<lambda>l. map buf (lane_indices np l)) [0..<PositionGroupSize]))"
    by (rule scan_best_lanes) (simp add: PositionGroupSize_def)
  also have "concat (map (\<lambda>l. map buf (lane_indices np l)) [0..<PositionGroupSize]) =
     map buf (concat (map (lane_indices np) [0..<PositionGroupSize]))"
    by (simp add: map_concat comp_def)
  finally show ?thesis .
qed

lemma position_shader_other: "k \<noteq> 0 \<Longrightarrow> position_shader np buf k = buf k"
  by (simp add: position_shader_def Let_def)


lemma fold_upd_other:
  "k \<notin> key ` set gs \<Longrightarrow> fold (\<lambda>g buf. buf(key g := val g)) gs buf k = buf k"
  by (induction gs arbitrary: buf) auto

lemma fold_upd_key:
  "inj_on key (set gs) \<Longrightarrow> g \<in> set gs \<Longrightarrow>
   fold (\<lambda>g buf. buf(key g := val g)) gs buf (key g) = val g"
proof (induction gs arbitrary: buf)
  case Nil
  then show ?case by simp
next
  case (Cons x xs)
  show ?case
  proof (cases "g \<in> set xs")
    case True
    then show ?thesis using Cons by (simp add: inj_on_def)
  next
    case False
    then have gx: "g = x" using Cons.prems by simp
    have "key x \<notin> key ` set xs" using Cons.prems(1) False gx by (auto simp: inj_on_def)
    then have "fold (\<lambda>g buf. buf(key g := val g)) xs (buf(key x := val x)) (key x) =
               (buf(key x := val x)) (key x)"
      by (rule fold_upd_other)
    then show ?thesis unfolding gx by (simp only: fold_simps fun_upd_same)
  qed
qed

lemma set_work_groups:
  "set (work_groups gs t) = {g. fst g < udiv (tex_width t) gs \<and> snd g < udiv (tex_height t) gs}"
  by (auto simp: work_groups_def)

lemma sample_shader_slot:
  assumes "index < udiv (tex_width t0) SampleGroupSize * udiv (tex_height t0) SampleGroupSize"
  shows "sample_shader mode (udiv (tex_width t0) SampleGroupSize) t0 t1 buf index =
         sample_group mode t0 t1 (index mod udiv (tex_width t0) SampleGroupSize,
                                   index div udiv (tex_width t0) SampleGroupSize)"
proof -
  let ?ng = "udiv (tex_width t0) SampleGroupSize"
  let ?key = "\<lambda>g. ?ng * snd g + fst g"
  let ?g = "(index mod ?ng, index div ?ng)"
  have pos: "0 < ?ng" using assms by (cases "?ng = 0") auto
  have inj: "inj_on ?key (set (work_groups SampleGroupSize t0))"
  proof (rule inj_onI)
    fix a b assume a: "a \<in> set (work_groups SampleGroupSize t0)"
      and b: "b \<in> set (work_groups SampleGroupSize t0)" and e: "?key a = ?key b"
    have la: "fst a < ?ng" and lb: "fst b < ?ng" using a b by (auto simp: set_work_groups)
    have "(?ng * snd a + fst a) mod ?ng = (?ng * snd b + fst b) mod ?ng" using e by simp
    then have f: "fst a = fst b" using la lb by simp
    have "(?ng * snd a + fst a) div ?ng = (?ng * snd b + fst b) div ?ng" using e by simp
    then have "snd a = snd b" using la lb pos by simp
    with f show "a = b" by (simp add: prod_eq_iff)
  qed
  have mem: "?g \<in> set (work_groups SampleGroupSize t0)"
    using assms pos by (simp add: set_work_groups less_mult_imp_div_less mult.commute)
  have "?key ?g = index" by simp
  then show ?thesis
    using fold_upd_key [OF inj mem, of "\<lambda>g. sample_group mode t0 t1 g" buf]
    by (simp add: sample_shader_def)
qed

lemma sample_group_scan:
  "sample_group mode t0 t1 g =
     scan_best (map (sample_lane mode t0 t1 g) [0..<SampleGroupSize * SampleGroupSize])"
proof -
  let ?xs = "map (sample_lane mode t0 t1 g) [0..<SampleGroupSize * SampleGroupSize]"
  have "?xs \<noteq> []" by (simp add: SampleGroupSize_def)
  then have "reduce_loop (length ?xs) 1 ?xs ! 0 = scan_best ?xs" by (rule reduce_loop_1)
  then show ?thesis by (simp add: sample_group_def Let_def)
qed

lemma set_lane_indices:
  "set (concat (map (lane_indices np) [0..<PositionGroupSize])) = {..<np}"
proof -
  have pos: "0 < PositionGroupSize" by (simp add: PositionGroupSize_def)
  show ?thesis
  proof (intro set_eqI iffI)
    fix index assume "index \<in> set (concat (map (lane_indices np) [0..<PositionGroupSize]))"
    then show "index \<in> {..<np}" by (auto simp: lane_indices_def)
  next
    fix index assume "index \<in> {..<np}"
    then have lt: "index < np" by simp
    let ?G = PositionGroupSize
    have "index div ?G < udiv np ?G"
    proof -
      have "index div ?G \<le> (np - 1) div ?G" using lt by (intro div_le_mono) simp
      also have "\<dots> < (np + ?G - 1) div ?G"
      proof -
        have "(np + ?G - 1) div ?G = (np - 1) div ?G + 1" using lt pos
          by (metis Nat.add_diff_assoc2 One_nat_def Suc_leI add.commute div_add_self1 less_nat_zero_code
              linorder_neqE_nat not_gr_zero zero_less_iff_neq_zero)
        then show ?thesis by simp
      qed
      finally show ?thesis by (simp add: udiv_def)
    qed
    moreover have "index mod ?G < ?G" using pos by simp
    moreover have "?G * (index div ?G) + index mod ?G = index" by simp
    ultimately have "index \<in> set (lane_indices np (index mod ?G))"
      using lt by (force simp: lane_indices_def)
    then show "index \<in> set (concat (map (lane_indices np) [0..<PositionGroupSize]))"
      using \<open>index mod ?G < ?G\<close> by auto
  qed
qed


lemma extremal_search_scan:
  "extremal_search mode t0 t1 buf 0 =
     foldl best (minus_1e9, (0, 0)) (map (pixel_lane mode t0 t1) (search_order t0))"
proof -
  let ?ng = "udiv (tex_width t0) SampleGroupSize"
  let ?np = "?ng * udiv (tex_height t0) SampleGroupSize"
  let ?idxs = "concat (map (lane_indices ?np) [0..<PositionGroupSize])"
  let ?buf = "sample_shader mode ?ng t0 t1 buf"
  let ?n = "SampleGroupSize * SampleGroupSize"
  let ?tile = "\<lambda>index. map (sample_lane mode t0 t1 (index mod ?ng, index div ?ng)) [0..<?n]"
  have "map ?buf ?idxs = map (\<lambda>index. scan_best (?tile index)) ?idxs"
  proof (rule map_cong [OF refl])
    fix index assume "index \<in> set ?idxs"
    then have "index < ?np" by (simp only: set_lane_indices lessThan_iff)
    then show "?buf index = scan_best (?tile index)"
      by (simp only: sample_shader_slot sample_group_scan)
  qed
  also have "\<dots> = map scan_best (map ?tile ?idxs)" by (simp add: comp_def)
  finally have e: "map ?buf ?idxs = map scan_best (map ?tile ?idxs)" .
  have "\<forall>xs\<in>set (map ?tile ?idxs). xs \<noteq> []" by (auto simp: SampleGroupSize_def)
  then have "foldl best (minus_1e9, (0, 0)) (map scan_best (map ?tile ?idxs)) =
        foldl best (minus_1e9, (0, 0)) (concat (map ?tile ?idxs))"
    by (rule foldl_best_scans)
  then have "foldl best (minus_1e9, (0, 0)) (map ?buf ?idxs) =
        foldl best (minus_1e9, (0, 0)) (concat (map ?tile ?idxs))"
    by (simp only: e)
  moreover have "concat (map ?tile ?idxs) = map (pixel_lane mode t0 t1) (search_order t0)"
  proof -
    have sl: "\<And>g. sample_lane mode t0 t1 g =
        (\<lambda>l. pixel_lane mode t0 t1 (global_invocation SampleGroupSize g l))"
      by (rule ext) (simp add: sample_lane_def pixel_lane_def Let_def)
    show ?thesis
      unfolding search_order_def Let_def map_concat map_map sl comp_def ..
  qed
  ultimately show ?thesis
    by (simp add: extremal_search_def Let_def position_shader_0)
qed

lemma udiv_dvd:
  assumes "0 < b" "b dvd a"
  shows "udiv a b = a div b"
proof -
  from assms(2) obtain k where k: "a = b * k" ..
  have "(a + b - 1) div b = k"
  proof (rule div_nat_eqI)
    show "b * k \<le> a + b - 1" using assms(1) k by simp
    show "a + b - 1 < b * Suc k" using assms(1) k by simp
  qed
  then show ?thesis using assms(1) k by (simp add: udiv_def)
qed

lemma set_search_order:
  assumes "SampleGroupSize dvd tex_width t" "SampleGroupSize dvd tex_height t"
  shows "set (search_order t) = {p. in_texture t p}"
proof -
  let ?G = SampleGroupSize
  let ?ng = "udiv (tex_width t) ?G"
  let ?gh = "udiv (tex_height t) ?G"
  have G: "?G = 16" by (simp add: SampleGroupSize_def)
  have w: "tex_width t = 16 * ?ng" and h: "tex_height t = 16 * ?gh"
    using assms by (simp_all add: udiv_dvd G)
  have set_eq: "set (search_order t) = (\<Union>index\<in>{..<?ng * ?gh}.
           global_invocation ?G (index mod ?ng, index div ?ng) ` {0..<?G * ?G})"
  proof -
    have "set (search_order t) =
       (\<Union>index\<in>set (concat (map (lane_indices (?ng * ?gh)) [0..<PositionGroupSize])).
           global_invocation ?G (index mod ?ng, index div ?ng) ` {0..<?G * ?G})"
      by (simp add: search_order_def Let_def)
    also have "\<dots> = (\<Union>index\<in>{..<?ng * ?gh}.
           global_invocation ?G (index mod ?ng, index div ?ng) ` {0..<?G * ?G})"
      by (simp only: set_lane_indices)
    finally show ?thesis .
  qed
  show ?thesis
  proof (intro set_eqI iffI)
    fix p assume "p \<in> set (search_order t)"
    then obtain index l where il: "index < ?ng * ?gh" "l < ?G * ?G"
      and p: "p = global_invocation ?G (index mod ?ng, index div ?ng) l"
      unfolding set_eq by auto
    have ng: "0 < ?ng" using il(1) by (cases "?ng = 0") auto
    have "index mod ?ng < ?ng" using ng by simp
    moreover have "index div ?ng < ?gh" using il(1) ng by (simp add: less_mult_imp_div_less mult.commute)
    moreover have "l mod 16 < 16" "l div 16 < 16" using il(2) by (simp_all add: G less_mult_imp_div_less)
    ultimately have "16 * (index mod ?ng) + l mod 16 < 16 * ?ng"
       "16 * (index div ?ng) + l div 16 < 16 * ?gh" by linarith+
    then show "p \<in> {p. in_texture t p}"
      using w h by (simp add: p global_invocation_def in_texture_def G)
  next
    fix p assume "p \<in> {p. in_texture t p}"
    then have inp: "in_texture t p" by simp
    define x y where "x = nat (fst p)" and "y = nat (snd p)"
    have xy: "p = (int x, int y)" "x < 16 * ?ng" "y < 16 * ?gh"
      using inp w h by (auto simp: in_texture_def x_def y_def prod_eq_iff)
    define index l where "index = ?ng * (y div 16) + x div 16" and "l = 16 * (y mod 16) + x mod 16"
    have gx: "x div 16 < ?ng" and gy: "y div 16 < ?gh" using xy by auto
    have "index < ?ng * ?gh"
    proof -
      have "index < ?ng * (y div 16) + ?ng" using gx by (simp add: index_def)
      also have "\<dots> = ?ng * Suc (y div 16)" by simp
      also have "\<dots> \<le> ?ng * ?gh" using gy by (intro mult_le_mono2) simp
      finally show ?thesis .
    qed
    moreover have "l < ?G * ?G" by (simp add: l_def G) 
    moreover have "index mod ?ng = x div 16" "index div ?ng = y div 16"
      using gx by (simp_all add: index_def)
    moreover have "l mod 16 = x mod 16" "l div 16 = y mod 16" by (simp_all add: l_def)
    ultimately have "p = global_invocation ?G (index mod ?ng, index div ?ng) l"
          "l \<in> {0..<?G * ?G}" "index \<in> {..<?ng * ?gh}"
      by (simp_all add: global_invocation_def G xy(1))
    then show "p \<in> set (search_order t)" unfolding set_eq by blast
  qed
qed



section \<open>Properties of the size adaptation and of one step\<close>


lemma smod_nonneg: "0 \<le> a \<Longrightarrow> 0 < b \<Longrightarrow> (a::int) smod b = a mod b"
  by (cases "a = 0") (simp_all add: smod_int_alt_def)

lemma sdiv_nonneg: "0 \<le> a \<Longrightarrow> 0 < b \<Longrightarrow> (a::int) sdiv b = a div b"
  by (cases "a = 0") (simp_all add: signed_divide_int_def)

lemma update_position_upscale_position: "update_position = upscale_position"
  by (intro ext) (simp add: update_position_def upscale_position_def)

lemma remap_coord:
  assumes "fits n N" "0 \<le> p"
  shows "((if p < (int N - int n) sdiv 2 then p + int n else p) - (int N - int n) sdiv 2) smod int n
         = remap N n p"
proof -
  have n: "0 < n" "n \<le> N" "(N - n) div 2 \<le> n" using assms(1) by (simp_all add: fits_def)
  have off: "(int N - int n) sdiv 2 = int ((N - n) div 2)"
    using n by (simp add: sdiv_nonneg of_nat_diff zdiv_int)
  show ?thesis
  proof (cases "p < int ((N - n) div 2)")
    case True
    have "0 \<le> p + int n - int ((N - n) div 2)" using n assms(2) by linarith
    then have "(p + int n - int ((N - n) div 2)) smod int n = (p + int n - int ((N - n) div 2)) mod int n"
      using n by (intro smod_nonneg) simp_all
    also have "\<dots> = (p - int ((N - n) div 2)) mod int n"
      by (metis add_diff_eq diff_add_eq mod_add_self2)
    finally show ?thesis using True by (simp add: off remap_def)
  next
    case False
    then have "0 \<le> p - int ((N - n) div 2)" by simp
    then have "(p - int ((N - n) div 2)) smod int n = (p - int ((N - n) div 2)) mod int n"
      using n by (intro smod_nonneg) simp_all
    then show ?thesis using False by (simp add: off remap_def)
  qed
qed

lemma update_position_remap:
  assumes "fits (tex_width small) (tex_width big)" "fits (tex_height small) (tex_height big)"
    "0 \<le> fst p" "0 \<le> snd p"
  shows "update_position (tex_size big) (tex_size small) p = remap2 big small p"
  unfolding update_position_def tex_size_def Let_def remap2_def fst_conv snd_conv
  by (simp only: remap_coord [OF assms(1,3)] remap_coord [OF assms(2,4)])

lemma remap_range: "fits n N \<Longrightarrow> 0 \<le> remap N n p \<and> remap N n p < int n"
  by (simp add: remap_def fits_def)

lemma remap_onto:
  assumes "fits n N" "0 \<le> q" "q < int n"
  shows "\<exists>p. 0 \<le> p \<and> p < int N \<and> remap N n p = q"
proof -
  let ?p = "q + int ((N - n) div 2)"
  have "0 \<le> ?p" using assms by simp
  moreover have "?p < int N" using assms by (simp add: fits_def) linarith
  moreover have "remap N n ?p = q" using assms by (simp add: remap_def)
  ultimately show ?thesis by blast
qed

lemma remap_same: "0 \<le> p \<Longrightarrow> p < int n \<Longrightarrow> remap n n p = p"
  by (simp add: remap_def)

lemma remap2_in_texture:
  "fits (tex_width small) (tex_width big) \<Longrightarrow> fits (tex_height small) (tex_height big) \<Longrightarrow>
   in_texture small (remap2 big small p)"
  using remap_range by (simp add: in_texture_def remap2_def)

lemma remap2_onto:
  assumes "fits (tex_width small) (tex_width big)" "fits (tex_height small) (tex_height big)"
    "in_texture small q"
  shows "\<exists>p. in_texture big p \<and> remap2 big small p = q"
proof -
  obtain x where x: "0 \<le> x" "x < int (tex_width big)" "remap (tex_width big) (tex_width small) x = fst q"
    using remap_onto [OF assms(1), of "fst q"] assms(3) by (auto simp: in_texture_def)
  obtain y where y: "0 \<le> y" "y < int (tex_height big)" "remap (tex_height big) (tex_height small) y = snd q"
    using remap_onto [OF assms(2), of "snd q"] assms(3) by (auto simp: in_texture_def)
  have "in_texture big (x, y) \<and> remap2 big small (x, y) = q"
    using x y by (simp add: in_texture_def remap2_def prod_eq_iff)
  then show ?thesis by blast
qed


lemma imageStore_size [simp]:
  "tex_width (imageStore t p v) = tex_width t" "tex_height (imageStore t p v) = tex_height t"
  by (simp_all add: imageStore_def)

lemma in_texture_imageStore [simp]: "in_texture (imageStore t p v) q = in_texture t q"
  by (simp add: in_texture_def)

lemma tex_data_imageStore:
  "tex_data (imageStore t p v) q = (if q = p \<and> in_texture t p then v else tex_data t q)"
  by (simp add: imageStore_def)

lemma fold_store:
  "tex_width (fold (\<lambda>g out. if c g then imageStore out g (f g) else out) gs out) = tex_width out \<and>
   tex_height (fold (\<lambda>g out. if c g then imageStore out g (f g) else out) gs out) = tex_height out \<and>
   tex_data (fold (\<lambda>g out. if c g then imageStore out g (f g) else out) gs out) p =
     (if p \<in> set gs \<and> c p \<and> in_texture out p then f p else tex_data out p)"
proof (induction gs arbitrary: out)
  case Nil
  then show ?case by simp
next
  case (Cons g gs)
  let ?out = "if c g then imageStore out g (f g) else out"
  have in_eq: "\<And>q. in_texture ?out q = in_texture out q" by simp
  show ?case
    using Cons.IH [of ?out] by (auto simp: tex_data_imageStore in_eq)
qed

lemma in_texture_invocations:
  assumes "0 < gs" "in_texture t p"
  shows "p \<in> set (invocations gs t)"
proof -
  define x y where "x = nat (fst p)" and "y = nat (snd p)"
  have xy: "p = (int x, int y)" "x < tex_width t" "y < tex_height t"
    using assms(2) by (auto simp: in_texture_def x_def y_def prod_eq_iff)
  have cover: "\<And>a n. a < n \<Longrightarrow> a div gs < udiv n gs"
  proof -
    fix a n :: nat assume "a < n"
    then have "a div gs \<le> (n - 1) div gs" by (intro div_le_mono) simp
    also have "(n - 1) div gs < (n - 1 + gs) div gs" using assms(1) by simp
    also have "n - 1 + gs = n + gs - 1" using \<open>a < n\<close> by simp
    finally show "a div gs < udiv n gs" by (simp add: udiv_def)
  qed
  define l where "l = gs * (y mod gs) + x mod gs"
  have l: "l < gs * gs" "l mod gs = x mod gs" "l div gs = y mod gs"
  proof -
    have "l < gs * (y mod gs) + gs" using assms(1) by (simp add: l_def)
    also have "\<dots> = gs * Suc (y mod gs)" by simp
    also have "\<dots> \<le> gs * gs" using assms(1) by (intro mult_le_mono2) (simp add: Suc_leI)
    finally show "l < gs * gs" .
    show "l mod gs = x mod gs" by (simp add: l_def)
    show "l div gs = y mod gs" using assms(1) by (simp add: l_def)
  qed
  have g: "(x div gs, y div gs) \<in> set (work_groups gs t)"
    using cover xy by (simp add: set_work_groups)
  have "p = global_invocation gs (x div gs, y div gs) l"
    by (simp add: global_invocation_def l xy(1))
  moreover have "l \<in> {0..<gs * gs}" using l(1) by simp
  ultimately have "p \<in> global_invocation gs (x div gs, y div gs) ` {0..<gs * gs}" by blast
  then have "p \<in> (\<Union>g\<in>set (work_groups gs t). global_invocation gs g ` {0..<gs * gs})"
    using g by blast
  then show ?thesis by (simp add: invocations_def)
qed

lemma upscale_shader_props:
  "tex_width (upscale_shader t out) = tex_width out"
  "tex_height (upscale_shader t out) = tex_height out"
  "in_texture out p \<Longrightarrow> tex_data (upscale_shader t out) p =
     texelFetch t (upscale_position (tex_size out) (tex_size t) p)"
proof -
  let ?f = "\<lambda>g. texelFetch t (upscale_position (tex_size out) (tex_size t) g)"
  have e: "upscale_shader t out =
     fold (\<lambda>g o'. if True then imageStore o' g (?f g) else o') (invocations RenderGroupSize out) out"
    by (simp add: upscale_shader_def)
  show "tex_width (upscale_shader t out) = tex_width out"
    "tex_height (upscale_shader t out) = tex_height out"
    unfolding e using fold_store [of "\<lambda>_. True" ?f] by blast+
  assume p: "in_texture out p"
  then have "p \<in> set (invocations RenderGroupSize out)"
    by (intro in_texture_invocations) (simp_all add: RenderGroupSize_def)
  then show "tex_data (upscale_shader t out) p = ?f p"
    unfolding e using fold_store [of "\<lambda>_. True" ?f "invocations RenderGroupSize out" out p] p by simp
qed

lemma inverse_shader_props:
  "tex_width (inverse_shader t out) = tex_width out"
  "tex_height (inverse_shader t out) = tex_height out"
  "in_texture out p \<Longrightarrow> in_texture t p \<Longrightarrow> tex_data (inverse_shader t out) p = 1 - tex_data t p"
proof -
  let ?c = "\<lambda>g. fst g < fst (tex_size t) \<and> snd g < snd (tex_size t)"
  let ?f = "\<lambda>g. 1 - texelFetch t g"
  have e: "inverse_shader t out =
     fold (\<lambda>g o'. if ?c g then imageStore o' g (?f g) else o') (invocations InverseGroupSize out) out"
    by (simp add: inverse_shader_def)
  show "tex_width (inverse_shader t out) = tex_width out"
    "tex_height (inverse_shader t out) = tex_height out"
    unfolding e using fold_store [of ?c ?f] by blast+
  assume p: "in_texture out p" "in_texture t p"
  then have "p \<in> set (invocations InverseGroupSize out)"
    by (intro in_texture_invocations) (simp_all add: InverseGroupSize_def)
  moreover have "?c p" using p(2) by (simp add: in_texture_def tex_size_def)
  ultimately show "tex_data (inverse_shader t out) p = 1 - tex_data t p"
    unfolding e using fold_store [of ?c ?f "invocations InverseGroupSize out" out p] p
    by (simp add: texelFetch_def)
qed


lemma binaryD: "binary t \<Longrightarrow> in_texture t p \<Longrightarrow> tex_data t p = 0 \<or> tex_data t p = 1"
  unfolding binary_def by blast

lemma foldl_best_const: "\<forall>x\<in>set xs. fst x \<le> fst a \<Longrightarrow> foldl best a xs = a"
  by (induction xs) (simp_all add: best_def)

lemma extremal_search_props:
  fixes mode t0 t1 buf
  assumes "SampleGroupSize dvd tex_width t0" "SampleGroupSize dvd tex_height t0"
  defines "r \<equiv> extremal_search mode t0 t1 buf 0"
  shows "minus_1e9 \<le> fst r"
    and "\<And>p. in_texture t0 p \<Longrightarrow> fst (pixel_lane mode t0 t1 p) \<le> fst r"
    and "r = (minus_1e9, (0, 0)) \<or> (\<exists>p. in_texture t0 p \<and> r = pixel_lane mode t0 t1 p)"
    and "(\<forall>p. in_texture t0 p \<longrightarrow> fst (pixel_lane mode t0 t1 p) \<le> minus_1e9)
           \<Longrightarrow> r = (minus_1e9, (0, 0))"
proof -
  let ?s = "(minus_1e9, (0, 0)) :: lane"
  let ?xs = "map (pixel_lane mode t0 t1) (search_order t0)"
  have r: "r = foldl best ?s ?xs" unfolding r_def by (rule extremal_search_scan)
  have set_xs: "set ?xs = pixel_lane mode t0 t1 ` {p. in_texture t0 p}"
    using set_search_order [OF assms(1,2)] by simp
  show "minus_1e9 \<le> fst r" using foldl_best_ge_init [of ?s ?xs] by (simp add: r)
  show "\<And>p. in_texture t0 p \<Longrightarrow> fst (pixel_lane mode t0 t1 p) \<le> fst r"
    unfolding r by (rule foldl_best_ge) (use set_xs in blast)
  show "r = ?s \<or> (\<exists>p. in_texture t0 p \<and> r = pixel_lane mode t0 t1 p)"
    using foldl_best_mem [of ?s ?xs] unfolding r set_xs by auto
  show "(\<forall>p. in_texture t0 p \<longrightarrow> fst (pixel_lane mode t0 t1 p) \<le> minus_1e9) \<Longrightarrow> r = ?s"
    unfolding r by (rule foldl_best_const) (use set_xs in auto)
qed


lemma tex_size_eq_iff:
  "tex_size a = tex_size b \<longleftrightarrow> tex_width a = tex_width b \<and> tex_height a = tex_height b"
  by (simp add: tex_size_def)

lemma in_texture_cong:
  "tex_width a = tex_width b \<Longrightarrow> tex_height a = tex_height b \<Longrightarrow> in_texture a = in_texture b"
  by (intro ext) (simp add: in_texture_def)

lemma search_input:
  fixes tex up bt :: texture
  assumes fw: "fits (tex_width tex) (tex_width bt)" and fh: "fits (tex_height tex) (tex_height bt)"
    and up: "tex_size tex \<noteq> tex_size bt \<longrightarrow> tex_size up = tex_size bt"
  defines "noise \<equiv> (if tex_size tex \<noteq> tex_size bt then upscale_shader tex up else tex)"
  shows "tex_width noise = tex_width bt" "tex_height noise = tex_height bt"
    and "\<And>g. in_texture noise g \<Longrightarrow>
           update_position (tex_size noise) (tex_size tex) g = remap2 noise tex g \<and>
           in_texture tex (remap2 noise tex g) \<and>
           tex_data noise g = tex_data tex (remap2 noise tex g)"
    and "\<And>q. in_texture tex q \<Longrightarrow> \<exists>g. in_texture noise g \<and> remap2 noise tex g = q"
proof -
  show w: "tex_width noise = tex_width bt" and h: "tex_height noise = tex_height bt"
    using up by (auto simp: noise_def upscale_shader_props tex_size_eq_iff)
  have fw': "fits (tex_width tex) (tex_width noise)" and fh': "fits (tex_height tex) (tex_height noise)"
    using fw fh w h by simp_all
  show "\<And>q. in_texture tex q \<Longrightarrow> \<exists>g. in_texture noise g \<and> remap2 noise tex g = q"
    by (rule remap2_onto [OF fw' fh'])
  fix g assume g: "in_texture noise g"
  then have nn: "0 \<le> fst g" "0 \<le> snd g" by (simp_all add: in_texture_def)
  have u: "update_position (tex_size noise) (tex_size tex) g = remap2 noise tex g"
    by (rule update_position_remap [OF fw' fh' nn])
  have i: "in_texture tex (remap2 noise tex g)" by (rule remap2_in_texture [OF fw' fh'])
  have d: "tex_data noise g = tex_data tex (remap2 noise tex g)"
  proof (cases "tex_size tex \<noteq> tex_size bt")
    case True
    then have n: "noise = upscale_shader tex up" and su: "tex_size up = tex_size bt"
      using up by (simp_all add: noise_def)
    have "in_texture up g"
      using g su w h by (simp add: in_texture_def tex_size_eq_iff)
    then have "tex_data noise g = texelFetch tex (upscale_position (tex_size up) (tex_size tex) g)"
      unfolding n by (rule upscale_shader_props)
    also have "tex_size up = tex_size noise" using su w h by (simp add: tex_size_eq_iff)
    also have "upscale_position (tex_size noise) (tex_size tex) g = remap2 noise tex g"
      using u by (simp add: update_position_upscale_position)
    finally show ?thesis using i by (simp add: texelFetch_def)
  next
    case False
    then have n: "noise = tex" by (simp add: noise_def)
    have "remap2 tex tex g = g"
      using g n by (simp add: remap2_def remap_same in_texture_def prod_eq_iff)
    then show ?thesis by (simp add: n)
  qed
  show "update_position (tex_size noise) (tex_size tex) g = remap2 noise tex g \<and>
           in_texture tex (remap2 noise tex g) \<and>
           tex_data noise g = tex_data tex (remap2 noise tex g)"
    using u i d by simp
qed


lemma search_winner:
  fixes mode :: sample_kernel and energy tex noise bt buf m
  assumes dw: "SampleGroupSize dvd tex_width noise" and dh: "SampleGroupSize dvd tex_height noise"
    and pos: "0 < tex_width noise" "0 < tex_height noise"
    and bin: "binary tex" and be: "bounded_energy energy"
    and sz: "tex_width bt = tex_width noise" "tex_height bt = tex_height noise"
    and m: "\<And>g. in_texture noise g \<Longrightarrow> in_texture tex (m g) \<and> tex_data noise g = tex_data tex (m g)"
    and onto: "\<And>q. in_texture tex q \<Longrightarrow> \<exists>g. in_texture noise g \<and> m g = q"
  defines "r \<equiv> extremal_search mode noise (bt\<lparr>tex_data := energy noise\<rparr>) buf 0"
  shows "in_texture noise (snd r)"
    and "mode = MIN_SAMPLE \<Longrightarrow> \<exists>q. in_texture tex q \<and> tex_data tex q = 0 \<Longrightarrow>
           tex_data tex (m (snd r)) = 0"
    and "mode = MAX_SAMPLE \<Longrightarrow> \<exists>q. in_texture tex q \<and> tex_data tex q = 1 \<Longrightarrow>
           tex_data tex (m (snd r)) = 1"
proof -
  let ?bt = "bt\<lparr>tex_data := energy noise\<rparr>"
  let ?pl = "pixel_lane mode noise ?bt"
  note sp = extremal_search_props [OF dw dh, where mode = mode and ?t1.0 = ?bt and buf = buf,
      folded r_def]
  have binn: "binary noise"
    unfolding binary_def
  proof (intro allI impI)
    fix g assume g: "in_texture noise g"
    then have "in_texture tex (m g)" "tex_data noise g = tex_data tex (m g)" using m by simp_all
    then show "tex_data noise g = 0 \<or> tex_data noise g = 1" using binaryD [OF bin] by simp
  qed
  have val: "\<And>g. in_texture noise g \<Longrightarrow> texelFetch noise g = tex_data tex (m g)"
    using m by (simp add: texelFetch_def)
  have en: "\<And>g. in_texture noise g \<Longrightarrow> texelFetch ?bt g = energy noise g"
    using sz by (simp add: texelFetch_def in_texture_def)
  have bound: "\<And>g. in_texture noise g \<Longrightarrow> \<bar>energy noise g\<bar> < 1000000000"
    using be binn unfolding bounded_energy_def by blast
  have zero: "in_texture noise (0, 0)" using pos by (simp add: in_texture_def)
  show "in_texture noise (snd r)" using sp(3) zero by (auto simp: pixel_lane_def)
  {
    assume mode: "mode = MIN_SAMPLE" and ex: "\<exists>q. in_texture tex q \<and> tex_data tex q = 0"
    then obtain g where g: "in_texture noise g" "tex_data tex (m g) = 0" using onto by metis
    have "fst (?pl g) = - energy noise g" using g by (simp add: pixel_lane_def mode val en)
    then have "minus_1e9 < fst (?pl g)" using bound [OF g(1)] by (simp add: minus_1e9_def)
    also have "\<dots> \<le> fst r" by (rule sp(2) [OF g(1)])
    finally have big: "minus_1e9 < fst r" .
    then obtain p where p: "in_texture noise p" "r = ?pl p" using sp(3) by auto
    have "\<not> 1 / 2 < tex_data tex (m p)"
      using big p by (auto simp: pixel_lane_def mode val split: if_splits)
    moreover have "tex_data tex (m p) = 0 \<or> tex_data tex (m p) = 1"
      using binaryD [OF bin] m [OF p(1)] by simp
    ultimately show "tex_data tex (m (snd r)) = 0" using p(2) by (auto simp: pixel_lane_def)
  }
  {
    assume mode: "mode = MAX_SAMPLE" and ex: "\<exists>q. in_texture tex q \<and> tex_data tex q = 1"
    then obtain g where g: "in_texture noise g" "tex_data tex (m g) = 1" using onto by metis
    have "fst (?pl g) = energy noise g" using g by (simp add: pixel_lane_def mode val en)
    then have "minus_1e9 < fst (?pl g)" using bound [OF g(1)] by (simp add: minus_1e9_def)
    also have "\<dots> \<le> fst r" by (rule sp(2) [OF g(1)])
    finally have big: "minus_1e9 < fst r" .
    then obtain p where p: "in_texture noise p" "r = ?pl p" using sp(3) by auto
    have "\<not> tex_data tex (m p) < 1 / 2"
      using big p by (auto simp: pixel_lane_def mode val split: if_splits)
    moreover have "tex_data tex (m p) = 0 \<or> tex_data tex (m p) = 1"
      using binaryD [OF bin] m [OF p(1)] by simp
    ultimately show "tex_data tex (m (snd r)) = 1" using p(2) by (auto simp: pixel_lane_def)
  }
qed


lemma dispatch_kernel_step:
  assumes wf: "wf_state st" and be: "bounded_energy energy" and bin: "binary (get_texture tgt st)"
  obtains pos wgt where
    "in_texture (get_texture tgt st) pos"
    "get_texture tgt (dispatch_kernel energy tgt mode val index st) =
       imageStore (get_texture tgt st) pos val"
    "tgt = NoiseTexture \<Longrightarrow>
       copy_texture (dispatch_kernel energy tgt mode val index st) = copy_texture st"
    "tgt = CopyTexture \<Longrightarrow>
       noise_texture (dispatch_kernel energy tgt mode val index st) = noise_texture st"
    "sequence_buffer (dispatch_kernel energy tgt mode val index st) =
       (if index \<noteq> Maxu32 then (sequence_buffer st)(index := (wgt, pos)) else sequence_buffer st)"
    "wf_state (dispatch_kernel energy tgt mode val index st)"
    "mode = MIN_SAMPLE \<Longrightarrow>
       \<exists>q. in_texture (get_texture tgt st) q \<and> tex_data (get_texture tgt st) q = 0 \<Longrightarrow>
       tex_data (get_texture tgt st) pos = 0"
    "mode = MAX_SAMPLE \<Longrightarrow>
       \<exists>q. in_texture (get_texture tgt st) q \<and> tex_data (get_texture tgt st) q = 1 \<Longrightarrow>
       tex_data (get_texture tgt st) pos = 1"
proof -
  define tex where "tex = get_texture tgt st"
  define b0 where "b0 = backward_texture st"
  define noise where "noise =
     (if tex_size tex \<noteq> tex_size b0 then upscale_shader tex (upscale_texture st) else tex)"
  define r where "r = extremal_search mode noise (b0\<lparr>tex_data := energy noise\<rparr>) (position_buffer st) 0"
  define pos where "pos = update_position (tex_size noise) (tex_size tex) (snd r)"
  let ?st' = "dispatch_kernel energy tgt mode val index st"
  have tsz: "tex_size tex = tex_size (noise_texture st)"
    using wf by (cases tgt) (simp_all add: tex_def wf_state_def)
  have fw: "fits (tex_width tex) (tex_width b0)" and fh: "fits (tex_height tex) (tex_height b0)"
    and up: "tex_size tex \<noteq> tex_size b0 \<longrightarrow> tex_size (upscale_texture st) = tex_size b0"
    and dv: "SampleGroupSize dvd tex_width b0" "SampleGroupSize dvd tex_height b0"
    using wf tsz by (simp_all add: wf_state_def b0_def tex_size_eq_iff)
  note si = search_input [OF fw fh up, folded noise_def]
  have posn: "0 < tex_width noise" "0 < tex_height noise"
    using fw fh si(1,2) by (simp_all add: fits_def)
  have m: "\<And>g. in_texture noise g \<Longrightarrow>
      in_texture tex (remap2 noise tex g) \<and> tex_data noise g = tex_data tex (remap2 noise tex g)"
    using si(3) by simp
  note sw = search_winner [where noise = noise and tex = tex and bt = b0 and energy = energy
      and m = "remap2 noise tex" and mode = mode and buf = "position_buffer st", folded r_def,
      OF _ _ posn _ be si(1,2) [symmetric] m si(4)]
  have bin': "binary tex" using bin by (simp add: tex_def)
  have dvn: "SampleGroupSize dvd tex_width noise" "SampleGroupSize dvd tex_height noise"
    using dv si(1,2) by simp_all
  have rin: "in_texture noise (snd r)" by (rule sw(1) [OF dvn bin'])
  have pos_eq: "pos = remap2 noise tex (snd r)" using si(3) [OF rin] by (simp add: pos_def)
  have pin: "in_texture tex pos" using si(3) [OF rin] by (simp add: pos_eq)
  have tex': "get_texture tgt ?st' = imageStore tex pos val"
    by (cases tgt)
       (simp_all add: dispatch_kernel_def Let_def update_shader_def tex_def noise_def b0_def
          r_def pos_def split: prod.splits)
  have others: "tgt = NoiseTexture \<Longrightarrow> copy_texture ?st' = copy_texture st"
      "tgt = CopyTexture \<Longrightarrow> noise_texture ?st' = noise_texture st"
    by (simp_all add: dispatch_kernel_def Let_def update_shader_def split: prod.splits)
  have seq: "sequence_buffer ?st' =
       (if index \<noteq> Maxu32 then (sequence_buffer st)(index := (fst r, pos)) else sequence_buffer st)"
    by (cases tgt)
       (simp_all add: dispatch_kernel_def Let_def update_shader_def tex_def noise_def b0_def
          r_def pos_def split: prod.splits)
  have bsz: "tex_size (backward_texture ?st') = tex_size b0"
    by (cases tgt)
       (simp_all add: dispatch_kernel_def Let_def update_shader_def b0_def tex_size_def
          split: prod.splits)
  have usz: "tex_size tex \<noteq> tex_size b0 \<Longrightarrow> tex_size (upscale_texture ?st') = tex_size b0"
    using up
    by (cases tgt)
       (simp_all add: dispatch_kernel_def Let_def update_shader_def b0_def tex_def tex_size_def
          upscale_shader_props split: prod.splits)
  have wf': "wf_state ?st'"
  proof -
    have n: "tex_size (noise_texture ?st') = tex_size (noise_texture st)"
      using tex' others tsz by (cases tgt) (simp_all add: tex_size_def tex_def)
    have c: "tex_size (copy_texture ?st') = tex_size (copy_texture st)"
      using tex' others tsz by (cases tgt) (simp_all add: tex_size_def tex_def)
    show ?thesis
      using wf n c bsz usz tsz
      by (simp add: wf_state_def b0_def tex_size_eq_iff)
  qed
  show thesis
  proof (rule that [of pos "fst r"])
    show "in_texture (get_texture tgt st) pos" using pin by (simp add: tex_def)
    show "get_texture tgt ?st' = imageStore (get_texture tgt st) pos val"
      using tex' by (simp add: tex_def)
    show "tgt = NoiseTexture \<Longrightarrow> copy_texture ?st' = copy_texture st" by (rule others)
    show "tgt = CopyTexture \<Longrightarrow> noise_texture ?st' = noise_texture st" by (rule others)
    show "sequence_buffer ?st' =
       (if index \<noteq> Maxu32 then (sequence_buffer st)(index := (fst r, pos)) else sequence_buffer st)"
      by (rule seq)
    show "wf_state ?st'" by (rule wf')
    show "mode = MIN_SAMPLE \<Longrightarrow>
       \<exists>q. in_texture (get_texture tgt st) q \<and> tex_data (get_texture tgt st) q = 0 \<Longrightarrow>
       tex_data (get_texture tgt st) pos = 0"
      using sw(2) [OF dvn bin'] by (simp add: tex_def pos_eq)
    show "mode = MAX_SAMPLE \<Longrightarrow>
       \<exists>q. in_texture (get_texture tgt st) q \<and> tex_data (get_texture tgt st) q = 1 \<Longrightarrow>
       tex_data (get_texture tgt st) pos = 1"
      using sw(3) [OF dvn bin'] by (simp add: tex_def pos_eq)
  qed
qed



section \<open>Properties of the phases\<close>


lemma pixels_eq: "{p. in_texture t p} = {0..<int (tex_width t)} \<times> {0..<int (tex_height t)}"
  by (auto simp: in_texture_def)

lemma finite_pixels [simp]: "finite {p. in_texture t p}"
  by (simp add: pixels_eq)

lemma card_pixels: "card {p. in_texture t p} = tex_width t * tex_height t"
  by (simp add: pixels_eq)

lemma finite_eligible [simp]: "finite (eligible mode t)"
  by (rule finite_subset [of _ "{p. in_texture t p}"]) (auto simp: eligible_def)

lemma finite_on_pixels [simp]: "finite (on_pixels t)"
  by (rule finite_subset [of _ "{p. in_texture t p}"]) (auto simp: on_pixels_def)

lemma eligible_MAX: "binary t \<Longrightarrow> eligible MAX_SAMPLE t = on_pixels t"
  by (auto simp: eligible_def on_pixels_def dest: binaryD)

lemma eligible_MIN: "binary t \<Longrightarrow> eligible MIN_SAMPLE t = {p. in_texture t p} - on_pixels t"
  by (auto simp: eligible_def on_pixels_def)

lemma binary_imageStore: "binary t \<Longrightarrow> v = 0 \<or> v = 1 \<Longrightarrow> binary (imageStore t p v)"
  unfolding binary_def by (auto simp: tex_data_imageStore)

lemma eligible_imageStore:
  "binary t \<Longrightarrow> eligible mode (imageStore t p (store_value mode)) = eligible mode t - {p}"
  by (cases mode) (auto simp: eligible_def tex_data_imageStore store_value_def dest: binaryD)

lemma imageStore_same: "imageStore t p (tex_data t p) = t"
  by (simp add: imageStore_def)

text \<open>One rank-assigning step, in terms of the eligible set.\<close>

lemma rank_step:
  assumes wf: "wf_state st" and be: "bounded_energy energy" and bin: "binary (get_texture tgt st)"
  obtains pos wgt where
    "in_texture (get_texture tgt st) pos"
    "eligible mode (get_texture tgt st) \<noteq> {} \<Longrightarrow> pos \<in> eligible mode (get_texture tgt st)"
    "get_texture tgt (dispatch_kernel energy tgt mode (store_value mode) index st) =
       imageStore (get_texture tgt st) pos (store_value mode)"
    "tgt = NoiseTexture \<Longrightarrow>
       copy_texture (dispatch_kernel energy tgt mode (store_value mode) index st) = copy_texture st"
    "tgt = CopyTexture \<Longrightarrow>
       noise_texture (dispatch_kernel energy tgt mode (store_value mode) index st) = noise_texture st"
    "sequence_buffer (dispatch_kernel energy tgt mode (store_value mode) index st) =
       (if index \<noteq> Maxu32 then (sequence_buffer st)(index := (wgt, pos)) else sequence_buffer st)"
    "wf_state (dispatch_kernel energy tgt mode (store_value mode) index st)"
proof -
  let ?tex = "get_texture tgt st"
  obtain pos wgt where p:
    "in_texture ?tex pos"
    "get_texture tgt (dispatch_kernel energy tgt mode (store_value mode) index st) =
       imageStore ?tex pos (store_value mode)"
    "tgt = NoiseTexture \<Longrightarrow>
       copy_texture (dispatch_kernel energy tgt mode (store_value mode) index st) = copy_texture st"
    "tgt = CopyTexture \<Longrightarrow>
       noise_texture (dispatch_kernel energy tgt mode (store_value mode) index st) = noise_texture st"
    "sequence_buffer (dispatch_kernel energy tgt mode (store_value mode) index st) =
       (if index \<noteq> Maxu32 then (sequence_buffer st)(index := (wgt, pos)) else sequence_buffer st)"
    "wf_state (dispatch_kernel energy tgt mode (store_value mode) index st)"
    "mode = MIN_SAMPLE \<Longrightarrow> \<exists>q. in_texture ?tex q \<and> tex_data ?tex q = 0 \<Longrightarrow> tex_data ?tex pos = 0"
    "mode = MAX_SAMPLE \<Longrightarrow> \<exists>q. in_texture ?tex q \<and> tex_data ?tex q = 1 \<Longrightarrow> tex_data ?tex pos = 1"
    by (rule dispatch_kernel_step [OF wf be bin, of mode "store_value mode" index]) blast
  have "pos \<in> eligible mode ?tex" if ne: "eligible mode ?tex \<noteq> {}"
  proof (cases mode)
    case MIN_SAMPLE
    from ne obtain q where "in_texture ?tex q" "\<not> 1 / 2 < tex_data ?tex q"
      by (auto simp: eligible_def MIN_SAMPLE)
    then have "in_texture ?tex q \<and> tex_data ?tex q = 0" using binaryD [OF bin, of q] by auto
    then have "tex_data ?tex pos = 0" using p(7) MIN_SAMPLE by blast
    then show ?thesis using p(1) by (simp add: eligible_def MIN_SAMPLE)
  next
    case MAX_SAMPLE
    from ne obtain q where "in_texture ?tex q" "\<not> tex_data ?tex q < 1 / 2"
      by (auto simp: eligible_def MAX_SAMPLE)
    then have "in_texture ?tex q \<and> tex_data ?tex q = 1" using binaryD [OF bin, of q] by auto
    then have "tex_data ?tex pos = 1" using p(8) MAX_SAMPLE by blast
    then show ?thesis using p(1) by (simp add: eligible_def MAX_SAMPLE)
  qed
  then show thesis using p(1-6) that by blast
qed


lemma other_texture_size:
  "get_texture tgt st' = imageStore (get_texture tgt st) pos v \<Longrightarrow>
   in_texture (get_texture tgt st') = in_texture (get_texture tgt st)"
  by (intro ext) simp

lemma rank_run:
  assumes be: "bounded_energy energy"
  shows "wf_state st \<Longrightarrow> binary (get_texture tgt st) \<Longrightarrow> distinct (map f is) \<Longrightarrow>
     Maxu32 \<notin> f ` set is \<Longrightarrow> length is \<le> card (eligible mode (get_texture tgt st)) \<Longrightarrow>
     st' = fold (\<lambda>i. dispatch_kernel energy tgt mode (store_value mode) (f i)) is st \<Longrightarrow>
     wf_state st' \<and> binary (get_texture tgt st') \<and>
     in_texture (get_texture tgt st') = in_texture (get_texture tgt st) \<and>
     (tgt = NoiseTexture \<longrightarrow> copy_texture st' = copy_texture st) \<and>
     (tgt = CopyTexture \<longrightarrow> noise_texture st' = noise_texture st) \<and>
     (\<forall>k. k \<notin> f ` set is \<longrightarrow> sequence_buffer st' k = sequence_buffer st k) \<and>
     inj_on (\<lambda>i. snd (sequence_buffer st' (f i))) (set is) \<and>
     (\<lambda>i. snd (sequence_buffer st' (f i))) ` set is \<subseteq> eligible mode (get_texture tgt st) \<and>
     eligible mode (get_texture tgt st') =
       eligible mode (get_texture tgt st) - (\<lambda>i. snd (sequence_buffer st' (f i))) ` set is"
proof (induction "is" arbitrary: st)
  case Nil
  then show ?case by simp
next
  case (Cons i "is")
  let ?tex = "get_texture tgt st"
  let ?st1 = "dispatch_kernel energy tgt mode (store_value mode) (f i) st"
  let ?tex1 = "get_texture tgt ?st1"
  have ne: "eligible mode ?tex \<noteq> {}" using Cons.prems(5) by auto
  have fi: "f i \<noteq> Maxu32" "f i \<notin> f ` set is" using Cons.prems(3,4) by auto
  obtain pos wgt where p:
    "pos \<in> eligible mode ?tex"
    "?tex1 = imageStore ?tex pos (store_value mode)"
    "tgt = NoiseTexture \<Longrightarrow> copy_texture ?st1 = copy_texture st"
    "tgt = CopyTexture \<Longrightarrow> noise_texture ?st1 = noise_texture st"
    "sequence_buffer ?st1 = (sequence_buffer st)(f i := (wgt, pos))"
    "wf_state ?st1"
    using rank_step [OF Cons.prems(1) be Cons.prems(2), of mode "f i"] ne fi(1) by metis
  have sv: "store_value mode = 0 \<or> store_value mode = 1" by (cases mode) (simp_all add: store_value_def)
  have bin1: "binary ?tex1" unfolding p(2) by (rule binary_imageStore [OF Cons.prems(2) sv])
  have el1: "eligible mode ?tex1 = eligible mode ?tex - {pos}"
    unfolding p(2) by (rule eligible_imageStore [OF Cons.prems(2)])
  have len1: "length is \<le> card (eligible mode ?tex1)"
    using Cons.prems(5) p(1) by (simp add: el1)
  have st': "st' = fold (\<lambda>i. dispatch_kernel energy tgt mode (store_value mode) (f i)) is ?st1"
    using Cons.prems(6) by simp
  have d: "distinct (map f is)" "Maxu32 \<notin> f ` set is" using Cons.prems(3,4) by auto
  note IH = Cons.IH [OF p(6) bin1 d len1 st']
  let ?seq = "\<lambda>j. snd (sequence_buffer st' (f j))"
  have same: "sequence_buffer st' (f i) = (wgt, pos)"
    using IH fi(2) p(5) by simp
  have img1: "?seq ` set is \<subseteq> eligible mode ?tex - {pos}" using IH el1 by simp
  have inj: "inj_on ?seq (set (i # is))"
  proof -
    have "?seq i \<notin> ?seq ` (set is - {i})" using img1 same by auto
    moreover have "inj_on ?seq (set is)" using IH by simp
    ultimately show ?thesis by simp
  qed
  have img: "?seq ` set (i # is) \<subseteq> eligible mode ?tex"
    using img1 same p(1) by auto
  have el: "eligible mode (get_texture tgt st') = eligible mode ?tex - ?seq ` set (i # is)"
  proof -
    have "eligible mode (get_texture tgt st') = eligible mode ?tex1 - ?seq ` set is"
      using IH by simp
    then show ?thesis using el1 same by auto
  qed
  have seqk: "\<forall>k. k \<notin> f ` set (i # is) \<longrightarrow> sequence_buffer st' k = sequence_buffer st k"
    using IH p(5) by simp
  have it: "in_texture (get_texture tgt st') = in_texture ?tex"
    using IH p(2) by (simp add: other_texture_size)
  show ?case
    using IH p(3,4) inj img el seqk it by simp
qed


lemma rank_run_ranks:
  assumes be: "bounded_energy energy" and wf: "wf_state st" and bin: "binary (get_texture tgt st)"
    and d: "distinct (map f is)" and m: "Maxu32 \<notin> f ` set is"
    and len: "length is \<le> card (eligible mode (get_texture tgt st))"
  defines "st' \<equiv> fold (\<lambda>i. dispatch_kernel energy tgt mode (store_value mode) (f i)) is st"
  shows "wf_state st'" "binary (get_texture tgt st')"
    "in_texture (get_texture tgt st') = in_texture (get_texture tgt st)"
    "tgt = NoiseTexture \<Longrightarrow> copy_texture st' = copy_texture st"
    "tgt = CopyTexture \<Longrightarrow> noise_texture st' = noise_texture st"
    "\<And>k. k \<notin> f ` set is \<Longrightarrow> sequence_buffer st' k = sequence_buffer st k"
    "inj_on (rank_position st') (f ` set is)"
    "rank_position st' ` (f ` set is) \<subseteq> eligible mode (get_texture tgt st)"
    "eligible mode (get_texture tgt st') =
       eligible mode (get_texture tgt st) - rank_position st' ` (f ` set is)"
proof -
  note r = rank_run [OF be wf bin d m len, of st', unfolded st'_def, OF refl, folded st'_def]
  show "wf_state st'" "binary (get_texture tgt st')"
    "in_texture (get_texture tgt st') = in_texture (get_texture tgt st)"
    "tgt = NoiseTexture \<Longrightarrow> copy_texture st' = copy_texture st"
    "tgt = CopyTexture \<Longrightarrow> noise_texture st' = noise_texture st"
    "\<And>k. k \<notin> f ` set is \<Longrightarrow> sequence_buffer st' k = sequence_buffer st k"
    using r by simp_all
  have c: "(\<lambda>i. snd (sequence_buffer st' (f i))) = rank_position st' \<circ> f"
    by (rule ext) (simp add: rank_position_def)
  have "inj_on f (set is)" using d by (simp add: distinct_map)
  moreover have "inj_on (rank_position st' \<circ> f) (set is)" using r c by simp
  ultimately show "inj_on (rank_position st') (f ` set is)" by (simp only: comp_inj_on_iff)
  have i: "rank_position st' ` (f ` set is) = (\<lambda>i. snd (sequence_buffer st' (f i))) ` set is"
    by (simp add: image_image rank_position_def)
  show "rank_position st' ` (f ` set is) \<subseteq> eligible mode (get_texture tgt st)"
    unfolding i using r by simp
  show "eligible mode (get_texture tgt st') =
       eligible mode (get_texture tgt st) - rank_position st' ` (f ` set is)"
    unfolding i using r by simp
qed


lemma inner_loop_fold: "inner_loop body i e s = (max i e, fold body [i..<e] s)"
proof (induction body i e s rule: inner_loop.induct)
  case (1 body i e s)
  show ?case
  proof (cases "i < e")
    case True
    then show ?thesis using 1 by (subst inner_loop.simps) (simp add: upt_conv_Cons)
  next
    case False
    then show ?thesis by (subst inner_loop.simps) simp
  qed
qed

lemma batch_loop_fold: "batch_loop body i n s = fold body [i..<n] s"
proof (induction body i n s rule: batch_loop.induct)
  case (1 body i n s)
  show ?case
  proof (cases "i < n")
    case True
    let ?e = "min (i + BatchSize) n"
    have e: "i < ?e" "?e \<le> n" using True by (simp_all add: BatchSize_def)
    have r: "inner_loop body i ?e s = (?e, fold body [i..<?e] s)"
      using e by (simp add: inner_loop_fold max_def)
    have "batch_loop body i n s = batch_loop body ?e n (fold body [i..<?e] s)"
      using True e r by (subst batch_loop.simps) (simp add: Let_def)
    also have "\<dots> = fold body [?e..<n] (fold body [i..<?e] s)"
      using "1.IH" [OF True refl] e r by simp
    also have "\<dots> = fold body ([i..<?e] @ [?e..<n]) s" by simp
    also have "[i..<?e] @ [?e..<n] = [i..<n]"
      using e by (metis le_iff_add less_imp_le_nat upt_add_eq_append)
    finally show ?thesis .
  next
    case False
    then show ?thesis by (subst batch_loop.simps) simp
  qed
qed

lemma on_pixels_subset: "on_pixels t \<subseteq> {p. in_texture t p}"
  by (auto simp: on_pixels_def)

lemma first_phase_fold:
  "first_phase energy P st =
     fold (\<lambda>i. dispatch_kernel energy CopyTexture MAX_SAMPLE (store_value MAX_SAMPLE) (P - i - 1))
       [0..<P] (st\<lparr>copy_texture := noise_texture st\<rparr>)"
  by (simp add: first_phase_def batch_loop_fold store_value_def)

lemma second_phase_fold:
  "second_phase energy P h st =
     fold (\<lambda>i. dispatch_kernel energy NoiseTexture MIN_SAMPLE (store_value MIN_SAMPLE) i) [P..<h] st"
  by (simp add: second_phase_def batch_loop_fold store_value_def)

lemma third_phase_fold:
  "third_phase energy h n st =
     fold (\<lambda>i. dispatch_kernel energy CopyTexture MAX_SAMPLE (store_value MAX_SAMPLE) i) [h..<n]
       (st\<lparr>copy_texture := inverse_shader (noise_texture st) (copy_texture st)\<rparr>)"
  by (simp add: third_phase_def batch_loop_fold store_value_def)

lemma descending_ranks:
  "distinct (map (\<lambda>i. P - i - 1) [0..<P])" "(\<lambda>i. P - i - 1) ` set [0..<P] = {..<P}"
proof -
  show "distinct (map (\<lambda>i. P - i - 1) [0..<P])"
    by (auto simp: distinct_map inj_on_def)
  show "(\<lambda>i. P - i - 1) ` set [0..<P] = {..<P}"
  proof (intro set_eqI iffI)
    fix r assume "r \<in> (\<lambda>i. P - i - 1) ` set [0..<P]"
    then show "r \<in> {..<P}" by auto
  next
    fix r assume "r \<in> {..<P}"
    then have "P - (P - r - 1) - 1 = r" "P - r - 1 \<in> set [0..<P]" by auto
    then show "r \<in> (\<lambda>i. P - i - 1) ` set [0..<P]" by (metis (mono_tags, lifting) image_iff)
  qed
qed

lemma first_phase_props:
  assumes be: "bounded_energy energy" and wf: "wf_state st" and bin: "binary (noise_texture st)"
    and P: "card (on_pixels (noise_texture st)) = P" "P \<le> Maxu32"
  defines "s1 \<equiv> first_phase energy P st"
  shows "wf_state s1" "noise_texture s1 = noise_texture st" "binary (copy_texture s1)"
    "on_pixels (copy_texture s1) = {}"
    "\<And>k. P \<le> k \<Longrightarrow> sequence_buffer s1 k = sequence_buffer st k"
    "bij_betw (rank_position s1) {..<P} (on_pixels (noise_texture st))"
proof -
  let ?st = "st\<lparr>copy_texture := noise_texture st\<rparr>"
  let ?f = "\<lambda>i. P - i - 1"
  have wf0: "wf_state ?st" using wf by (simp add: wf_state_def)
  have bin0: "binary (get_texture CopyTexture ?st)" using bin by simp
  have el0: "eligible MAX_SAMPLE (get_texture CopyTexture ?st) = on_pixels (noise_texture st)"
    using bin by (simp add: eligible_MAX)
  have m: "Maxu32 \<notin> ?f ` set [0..<P]" using P(2) by (auto simp: descending_ranks(2))
  have len: "length [0..<P] \<le> card (eligible MAX_SAMPLE (get_texture CopyTexture ?st))"
    using P(1) el0 by simp
  note r = rank_run_ranks [OF be wf0 bin0 descending_ranks(1) m len,
      folded first_phase_fold s1_def, unfolded descending_ranks(2) el0]
  show "wf_state s1" by (rule r(1))
  show "noise_texture s1 = noise_texture st" using r(5) by simp
  show b1: "binary (copy_texture s1)" using r(2) by simp
  show "\<And>k. P \<le> k \<Longrightarrow> sequence_buffer s1 k = sequence_buffer st k" using r(6) by simp
  have "card (rank_position s1 ` {..<P}) = P" using r(7) by (simp add: card_image)
  then have img: "rank_position s1 ` {..<P} = on_pixels (noise_texture st)"
    using r(8) P(1) by (intro card_subset_eq) simp_all
  show "bij_betw (rank_position s1) {..<P} (on_pixels (noise_texture st))"
    using r(7) img by (simp add: bij_betw_def)
  have "eligible MAX_SAMPLE (copy_texture s1) = {}" using r(9) img by simp
  then show "on_pixels (copy_texture s1) = {}" using b1 by (simp add: eligible_MAX)
qed


lemma on_pixels_eligible_MIN:
  "binary t \<Longrightarrow> on_pixels t = {p. in_texture t p} - eligible MIN_SAMPLE t"
  using on_pixels_subset [of t] by (auto simp: eligible_MIN)

lemma card_eligible_MIN:
  "binary t \<Longrightarrow> card (eligible MIN_SAMPLE t) = tex_width t * tex_height t - card (on_pixels t)"
  using on_pixels_subset [of t] by (simp add: eligible_MIN card_Diff_subset card_pixels)

lemma second_phase_props:
  assumes be: "bounded_energy energy" and wf: "wf_state st" and bin: "binary (noise_texture st)"
    and P: "card (on_pixels (noise_texture st)) = P" "P \<le> h"
    and h: "h \<le> tex_width (noise_texture st) * tex_height (noise_texture st)" "h \<le> Maxu32"
  defines "s2 \<equiv> second_phase energy P h st"
  shows "wf_state s2" "copy_texture s2 = copy_texture st" "binary (noise_texture s2)"
    "in_texture (noise_texture s2) = in_texture (noise_texture st)"
    "\<And>k. k < P \<or> h \<le> k \<Longrightarrow> sequence_buffer s2 k = sequence_buffer st k"
    "inj_on (rank_position s2) {P..<h}"
    "rank_position s2 ` {P..<h} \<subseteq> {p. in_texture (noise_texture st) p} - on_pixels (noise_texture st)"
    "on_pixels (noise_texture s2) = on_pixels (noise_texture st) \<union> rank_position s2 ` {P..<h}"
    "card (on_pixels (noise_texture s2)) = h"
proof -
  let ?t = "noise_texture st"
  have d: "distinct (map (\<lambda>i. i) [P..<h])" by simp
  have m: "Maxu32 \<notin> (\<lambda>i. i) ` set [P..<h]" using h(2) by auto
  have bin0: "binary (get_texture NoiseTexture st)" using bin by simp
  have len: "length [P..<h] \<le> card (eligible MIN_SAMPLE (get_texture NoiseTexture st))"
    using P h(1) card_eligible_MIN [OF bin] by simp
  note r = rank_run_ranks [OF be wf bin0 d m len, folded second_phase_fold s2_def]
  have set_eq: "(\<lambda>i. i) ` set [P..<h] = {P..<h}" by simp
  show "wf_state s2" by (rule r(1))
  show "copy_texture s2 = copy_texture st" using r(4) by simp
  show b2: "binary (noise_texture s2)" using r(2) by simp
  show it: "in_texture (noise_texture s2) = in_texture ?t" using r(3) by simp
  show "\<And>k. k < P \<or> h \<le> k \<Longrightarrow> sequence_buffer s2 k = sequence_buffer st k"
    using r(6) by auto
  show inj: "inj_on (rank_position s2) {P..<h}" using r(7) by (simp only: set_eq)
  have img: "rank_position s2 ` {P..<h} \<subseteq> eligible MIN_SAMPLE ?t"
    using r(8) by (simp only: set_eq get_texture.simps)
  then show sub: "rank_position s2 ` {P..<h} \<subseteq> {p. in_texture ?t p} - on_pixels ?t"
    using bin by (simp add: eligible_MIN)
  have el: "eligible MIN_SAMPLE (noise_texture s2) =
      eligible MIN_SAMPLE ?t - rank_position s2 ` {P..<h}"
    using r(9) by (simp only: set_eq get_texture.simps)
  show on2: "on_pixels (noise_texture s2) = on_pixels ?t \<union> rank_position s2 ` {P..<h}"
    using on_pixels_eligible_MIN [OF b2] el it img on_pixels_subset [of ?t]
    by (auto simp: eligible_MIN [OF bin])
  have "card (on_pixels ?t \<union> rank_position s2 ` {P..<h}) =
      card (on_pixels ?t) + card (rank_position s2 ` {P..<h})"
    using sub by (intro card_Un_disjoint) auto
  also have "card (rank_position s2 ` {P..<h}) = h - P" using inj by (simp add: card_image)
  finally show "card (on_pixels (noise_texture s2)) = h" using P by (simp add: on2)
qed

lemma third_phase_props:
  assumes be: "bounded_energy energy" and wf: "wf_state st" and bin: "binary (noise_texture st)"
    and h: "card (on_pixels (noise_texture st)) = h"
    and n: "n = tex_width (noise_texture st) * tex_height (noise_texture st)" "n \<le> Maxu32"
  defines "s3 \<equiv> third_phase energy h n st"
  shows "wf_state s3" "noise_texture s3 = noise_texture st"
    "\<And>k. k < h \<or> n \<le> k \<Longrightarrow> sequence_buffer s3 k = sequence_buffer st k"
    "bij_betw (rank_position s3) {h..<n} ({p. in_texture (noise_texture st) p} - on_pixels (noise_texture st))"
proof -
  let ?t = "noise_texture st"
  let ?c = "inverse_shader ?t (copy_texture st)"
  let ?st = "st\<lparr>copy_texture := ?c\<rparr>"
  have csz: "tex_width (copy_texture st) = tex_width ?t" "tex_height (copy_texture st) = tex_height ?t"
    using wf by (simp_all add: wf_state_def tex_size_eq_iff)
  have sz: "tex_width ?c = tex_width ?t" "tex_height ?c = tex_height ?t"
    using csz by (simp_all add: inverse_shader_props)
  have itc: "in_texture ?c = in_texture ?t" using sz by (rule in_texture_cong)
  have itc0: "in_texture (copy_texture st) = in_texture ?t" using csz by (rule in_texture_cong)
  have data: "\<And>p. in_texture ?t p \<Longrightarrow> tex_data ?c p = 1 - tex_data ?t p"
    using itc0 by (simp add: inverse_shader_props)
  have wf0: "wf_state ?st" using wf sz by (simp add: wf_state_def tex_size_eq_iff)
  have bin0: "binary (get_texture CopyTexture ?st)"
    unfolding binary_def using binaryD [OF bin] data itc by auto
  have el0: "eligible MAX_SAMPLE (get_texture CopyTexture ?st) = {p. in_texture ?t p} - on_pixels ?t"
    using binaryD [OF bin] data itc by (auto simp: eligible_def on_pixels_def)
  have hn: "h \<le> n" using h n(1) on_pixels_subset [of ?t] card_mono [OF finite_pixels, of "on_pixels ?t" ?t]
    by (simp add: card_pixels)
  have card0: "card ({p. in_texture ?t p} - on_pixels ?t) = n - h"
    using on_pixels_subset [of ?t] h n(1) by (simp add: card_Diff_subset card_pixels)
  have d: "distinct (map (\<lambda>i. i) [h..<n])" by simp
  have m: "Maxu32 \<notin> (\<lambda>i. i) ` set [h..<n]" using n(2) by auto
  have len: "length [h..<n] \<le> card (eligible MAX_SAMPLE (get_texture CopyTexture ?st))"
    using card0 el0 by simp
  note r = rank_run_ranks [OF be wf0 bin0 d m len, folded third_phase_fold s3_def]
  have set_eq: "(\<lambda>i. i) ` set [h..<n] = {h..<n}" by simp
  show "wf_state s3" by (rule r(1))
  show "noise_texture s3 = noise_texture st" using r(5) by simp
  show "\<And>k. k < h \<or> n \<le> k \<Longrightarrow> sequence_buffer s3 k = sequence_buffer st k"
    using r(6) by auto
  have inj: "inj_on (rank_position s3) {h..<n}" using r(7) by (simp only: set_eq)
  have sub: "rank_position s3 ` {h..<n} \<subseteq> {p. in_texture ?t p} - on_pixels ?t"
    using r(8) el0 by (simp only: set_eq)
  have "card (rank_position s3 ` {h..<n}) = n - h" using inj by (simp add: card_image)
  then have "rank_position s3 ` {h..<n} = {p. in_texture ?t p} - on_pixels ?t"
    using sub card0 by (intro card_subset_eq) simp_all
  then show "bij_betw (rank_position s3) {h..<n} ({p. in_texture ?t p} - on_pixels ?t)"
    using inj by (simp add: bij_betw_def)
qed


lemma sample_weight_ineligible:
  "p \<notin> eligible mode t \<Longrightarrow> in_texture t p \<Longrightarrow> sample_weight mode (tex_data t p) e = minus_1e9"
  by (cases mode) (auto simp: eligible_def)

lemma search_starved:
  fixes mode :: sample_kernel and tex noise t1 buf m
  assumes dw: "SampleGroupSize dvd tex_width noise" and dh: "SampleGroupSize dvd tex_height noise"
    and m: "\<And>g. in_texture noise g \<Longrightarrow> in_texture tex (m g) \<and> tex_data noise g = tex_data tex (m g)"
    and el: "eligible mode tex = {}"
  shows "extremal_search mode noise t1 buf 0 = (minus_1e9, (0, 0))"
proof (rule extremal_search_props(4) [OF dw dh], intro allI impI)
  fix p assume p: "in_texture noise p"
  have "m p \<notin> eligible mode tex" using el by simp
  then have "sample_weight mode (tex_data tex (m p)) (texelFetch t1 p) = minus_1e9"
    using m [OF p] by (intro sample_weight_ineligible) simp_all
  then show "fst (pixel_lane mode noise t1 p) \<le> minus_1e9"
    using m [OF p] p by (simp add: pixel_lane_def texelFetch_def)
qed

lemma dispatch_kernel_starved:
  assumes wf: "wf_state st" and el: "eligible mode (get_texture tgt st) = {}"
  defines "pos \<equiv> update_position (tex_size (backward_texture st)) (tex_size (get_texture tgt st)) (0, 0)"
  shows "position_buffer (dispatch_kernel energy tgt mode val index st) 0 = (minus_1e9, (0, 0))"
    "get_texture tgt (dispatch_kernel energy tgt mode val index st) =
       imageStore (get_texture tgt st) pos val"
    "sequence_buffer (dispatch_kernel energy tgt mode val index st) =
       (if index \<noteq> Maxu32 then (sequence_buffer st)(index := (minus_1e9, pos))
        else sequence_buffer st)"
proof -
  define tex where "tex = get_texture tgt st"
  define b0 where "b0 = backward_texture st"
  define noise where "noise =
     (if tex_size tex \<noteq> tex_size b0 then upscale_shader tex (upscale_texture st) else tex)"
  define r where "r = extremal_search mode noise (b0\<lparr>tex_data := energy noise\<rparr>) (position_buffer st) 0"
  let ?st' = "dispatch_kernel energy tgt mode val index st"
  have tsz: "tex_size tex = tex_size (noise_texture st)"
    using wf by (cases tgt) (simp_all add: tex_def wf_state_def)
  have fw: "fits (tex_width tex) (tex_width b0)" and fh: "fits (tex_height tex) (tex_height b0)"
    and up: "tex_size tex \<noteq> tex_size b0 \<longrightarrow> tex_size (upscale_texture st) = tex_size b0"
    and dv: "SampleGroupSize dvd tex_width b0" "SampleGroupSize dvd tex_height b0"
    using wf tsz by (simp_all add: wf_state_def b0_def tex_size_eq_iff)
  note si = search_input [OF fw fh up, folded noise_def]
  have m: "\<And>g. in_texture noise g \<Longrightarrow>
      in_texture tex (remap2 noise tex g) \<and> tex_data noise g = tex_data tex (remap2 noise tex g)"
    using si(3) by simp
  have dvn: "SampleGroupSize dvd tex_width noise" "SampleGroupSize dvd tex_height noise"
    using dv si(1,2) by simp_all
  have r: "r = (minus_1e9, (0, 0))"
    unfolding r_def using dvn m el [folded tex_def] by (rule search_starved)
  have nsz: "tex_size noise = tex_size b0" using si(1,2) by (simp add: tex_size_eq_iff)
  have "position_buffer ?st' 0 = r"
    by (cases tgt)
       (simp_all add: dispatch_kernel_def Let_def update_shader_def tex_def noise_def b0_def
          r_def split: prod.splits)
  then show "position_buffer ?st' 0 = (minus_1e9, (0, 0))" by (simp only: r)
  have tex': "get_texture tgt ?st' =
      imageStore tex (update_position (tex_size noise) (tex_size tex) (snd r)) val"
    by (cases tgt)
       (simp_all add: dispatch_kernel_def Let_def update_shader_def tex_def noise_def b0_def
          r_def split: prod.splits)
  show "get_texture tgt ?st' = imageStore (get_texture tgt st) pos val"
    using tex' by (simp add: r nsz pos_def tex_def b0_def)
  have seq: "sequence_buffer ?st' =
       (if index \<noteq> Maxu32
        then (sequence_buffer st)(index := (fst r, update_position (tex_size noise) (tex_size tex) (snd r)))
        else sequence_buffer st)"
    by (cases tgt)
       (simp_all add: dispatch_kernel_def Let_def update_shader_def tex_def noise_def b0_def
          r_def split: prod.splits)
  show "sequence_buffer ?st' =
       (if index \<noteq> Maxu32 then (sequence_buffer st)(index := (minus_1e9, pos))
        else sequence_buffer st)"
    using seq by (simp add: r nsz pos_def tex_def b0_def)
qed





lemma wf_start_state:
  "SampleGroupSize dvd W \<Longrightarrow> SampleGroupSize dvd H \<Longrightarrow> fits (tex_width t) W \<Longrightarrow>
   fits (tex_height t) H \<Longrightarrow> wf_state (start_state t W H)"
  by (simp add: wf_state_def start_state_def uniform_texture_def tex_size_def)

lemma bounded_local_energy: "bounded_energy local_energy"
  unfolding bounded_energy_def local_energy_def
  by (auto simp: texelFetch_def dest: binaryD)

lemma foldl_best_scan: "xs \<noteq> [] \<Longrightarrow> foldl best a xs = best a (scan_best xs)"
  by (cases xs) (simp_all add: scan_best_def foldl_best_assoc [symmetric])



section \<open>Properties of the initial sequence and of a layer\<close>
lemma rank_run_any:
  assumes be: "bounded_energy energy"
  shows "wf_state st \<Longrightarrow> binary (get_texture tgt st) \<Longrightarrow>
     st' = fold (\<lambda>i. dispatch_kernel energy tgt mode (store_value mode) (f i)) is st \<Longrightarrow>
     wf_state st' \<and> binary (get_texture tgt st') \<and>
     in_texture (get_texture tgt st') = in_texture (get_texture tgt st) \<and>
     (tgt = NoiseTexture \<longrightarrow> copy_texture st' = copy_texture st) \<and>
     (tgt = CopyTexture \<longrightarrow> noise_texture st' = noise_texture st) \<and>
     ((\<forall>i\<in>set is. f i = Maxu32) \<longrightarrow> sequence_buffer st' = sequence_buffer st) \<and>
     eligible mode (get_texture tgt st') \<subseteq> eligible mode (get_texture tgt st) \<and>
     card (eligible mode (get_texture tgt st')) =
       card (eligible mode (get_texture tgt st)) - length is"
proof (induction "is" arbitrary: st)
  case Nil
  then show ?case by simp
next
  case (Cons i "is")
  let ?tex = "get_texture tgt st"
  let ?st1 = "dispatch_kernel energy tgt mode (store_value mode) (f i) st"
  let ?tex1 = "get_texture tgt ?st1"
  obtain pos wgt where p:
    "eligible mode ?tex \<noteq> {} \<Longrightarrow> pos \<in> eligible mode ?tex"
    "?tex1 = imageStore ?tex pos (store_value mode)"
    "tgt = NoiseTexture \<Longrightarrow> copy_texture ?st1 = copy_texture st"
    "tgt = CopyTexture \<Longrightarrow> noise_texture ?st1 = noise_texture st"
    "sequence_buffer ?st1 =
       (if f i \<noteq> Maxu32 then (sequence_buffer st)(f i := (wgt, pos)) else sequence_buffer st)"
    "wf_state ?st1"
    using rank_step [OF Cons.prems(1) be Cons.prems(2), of mode "f i"] by metis
  have sv: "store_value mode = 0 \<or> store_value mode = 1" by (cases mode) (simp_all add: store_value_def)
  have bin1: "binary ?tex1" unfolding p(2) by (rule binary_imageStore [OF Cons.prems(2) sv])
  have el1: "eligible mode ?tex1 = eligible mode ?tex - {pos}"
    unfolding p(2) by (rule eligible_imageStore [OF Cons.prems(2)])
  have card1: "card (eligible mode ?tex1) = card (eligible mode ?tex) - 1"
  proof (cases "eligible mode ?tex = {}")
    case True
    then show ?thesis by (simp add: el1)
  next
    case False
    then show ?thesis using p(1) by (simp add: el1)
  qed
  have st': "st' = fold (\<lambda>i. dispatch_kernel energy tgt mode (store_value mode) (f i)) is ?st1"
    using Cons.prems(3) by simp
  note IH = Cons.IH [OF p(6) bin1 st']
  have it: "in_texture (get_texture tgt st') = in_texture ?tex"
    using IH p(2) by (simp add: other_texture_size)
  have sub: "eligible mode (get_texture tgt st') \<subseteq> eligible mode ?tex"
    using IH el1 by auto
  have card: "card (eligible mode (get_texture tgt st')) = card (eligible mode ?tex) - length (i # is)"
    using IH card1 by simp
  have seq: "(\<forall>j\<in>set (i # is). f j = Maxu32) \<longrightarrow> sequence_buffer st' = sequence_buffer st"
    using IH p(5) by simp
  show ?case using IH p(3,4) it sub card seq by simp
qed

lemma card_on_le: "card (on_pixels t) \<le> tex_width t * tex_height t"
  using card_mono [OF finite_pixels on_pixels_subset, of t] by (simp add: card_pixels)

lemma swap_pair_props:
  assumes be: "bounded_energy energy" and wf: "wf_state st" and bin: "binary (noise_texture st)"
  shows "wf_state (swap_pair energy st)" "binary (noise_texture (swap_pair energy st))"
    "in_texture (noise_texture (swap_pair energy st)) = in_texture (noise_texture st)"
    "copy_texture (swap_pair energy st) = copy_texture st"
    "sequence_buffer (swap_pair energy st) = sequence_buffer st"
    "card (on_pixels (noise_texture (swap_pair energy st))) =
       (if card (on_pixels (noise_texture st)) < tex_width (noise_texture st) * tex_height (noise_texture st)
        then card (on_pixels (noise_texture st))
        else tex_width (noise_texture st) * tex_height (noise_texture st) - 1)"
proof -
  let ?s1 = "dispatch_kernel energy NoiseTexture MIN_SAMPLE 1 Maxu32 st"
  let ?t = "noise_texture st" and ?t1 = "noise_texture ?s1"
  let ?t2 = "noise_texture (swap_pair energy st)"
  let ?n = "tex_width ?t * tex_height ?t"
  have e1: "?s1 = fold (\<lambda>i. dispatch_kernel energy NoiseTexture MIN_SAMPLE (store_value MIN_SAMPLE)
                ((\<lambda>_. Maxu32) i)) [0::nat] st"
    by (simp add: store_value_def)
  have b0: "binary (get_texture NoiseTexture st)" using bin by simp
  note r1 = rank_run_any [OF be wf b0 e1, simplified]
  have e2: "swap_pair energy st = fold (\<lambda>i. dispatch_kernel energy NoiseTexture MAX_SAMPLE
                (store_value MAX_SAMPLE) ((\<lambda>_. Maxu32) i)) [0::nat] ?s1"
    by (simp add: store_value_def swap_pair_def)
  have b1: "binary (get_texture NoiseTexture ?s1)" using r1 by simp
  have wf1: "wf_state ?s1" using r1 by simp
  note r2 = rank_run_any [OF be wf1 b1 e2, simplified]
  show "wf_state (swap_pair energy st)" using r2 by simp
  show b2: "binary ?t2" using r2 by simp
  show it: "in_texture ?t2 = in_texture ?t" using r1 r2 by simp
  show "copy_texture (swap_pair energy st) = copy_texture st" using r1 r2 by simp
  show "sequence_buffer (swap_pair energy st) = sequence_buffer st" using r1 r2 by simp
  have it1: "in_texture ?t1 = in_texture ?t" using r1 by simp
  have sz1: "tex_width ?t1 * tex_height ?t1 = ?n"
    using card_pixels [of ?t1] card_pixels [of ?t] it1 by simp
  have c1: "?n - card (on_pixels ?t1) = ?n - card (on_pixels ?t) - 1"
    using r1 card_eligible_MIN [OF bin] card_eligible_MIN [of ?t1] b1 sz1 by simp
  have c2: "card (on_pixels ?t2) = card (on_pixels ?t1) - 1"
    using r2 eligible_MAX [OF b2] eligible_MAX [of ?t1] b1 by simp
  have le: "card (on_pixels ?t) \<le> ?n" "card (on_pixels ?t1) \<le> ?n"
    using card_on_le [of ?t] card_on_le [of ?t1] sz1 by simp_all
  have pos: "0 < ?n" using wf by (simp add: wf_state_def fits_def)
  show "card (on_pixels ?t2) =
       (if card (on_pixels ?t) < ?n then card (on_pixels ?t) else ?n - 1)"
    using c1 c2 le pos by auto
qed

lemma fold_swap_pairs:
  assumes be: "bounded_energy energy"
  shows "wf_state st \<Longrightarrow> binary (noise_texture st) \<Longrightarrow>
     card (on_pixels (noise_texture st)) < tex_width (noise_texture st) * tex_height (noise_texture st) \<Longrightarrow>
     wf_state (fold (\<lambda>i. swap_pair energy) is st) \<and>
     binary (noise_texture (fold (\<lambda>i. swap_pair energy) is st)) \<and>
     in_texture (noise_texture (fold (\<lambda>i. swap_pair energy) is st)) = in_texture (noise_texture st) \<and>
     copy_texture (fold (\<lambda>i. swap_pair energy) is st) = copy_texture st \<and>
     sequence_buffer (fold (\<lambda>i. swap_pair energy) is st) = sequence_buffer st \<and>
     card (on_pixels (noise_texture (fold (\<lambda>i. swap_pair energy) is st))) =
       card (on_pixels (noise_texture st))"
proof (induction "is" arbitrary: st)
  case Nil
  then show ?case by simp
next
  case (Cons i "is")
  note sp = swap_pair_props [OF be Cons.prems(1,2)]
  let ?s = "swap_pair energy st"
  have sz: "tex_width (noise_texture ?s) * tex_height (noise_texture ?s) =
      tex_width (noise_texture st) * tex_height (noise_texture st)"
    using card_pixels [of "noise_texture ?s"] card_pixels [of "noise_texture st"] sp(3) by simp
  have c: "card (on_pixels (noise_texture ?s)) = card (on_pixels (noise_texture st))"
    using sp(6) Cons.prems(3) by simp
  have lt: "card (on_pixels (noise_texture ?s)) < tex_width (noise_texture ?s) * tex_height (noise_texture ?s)"
    using c sz Cons.prems(3) by simp
  show ?case using Cons.IH [OF sp(1,2) lt] sp(3,4,5) c by simp
qed

lemma initial_sequence_fold:
  "initial_sequence energy P st = fold (\<lambda>i. swap_pair energy) [0..<P] st"
proof -
  have "(\<lambda>i st. dispatch_kernel energy NoiseTexture MAX_SAMPLE 0 Maxu32
           (dispatch_kernel energy NoiseTexture MIN_SAMPLE 1 Maxu32 st)) = (\<lambda>i. swap_pair energy)"
    by (intro ext) (simp add: swap_pair_def)
  then show ?thesis unfolding initial_sequence_def batch_loop_fold by (rule arg_cong)
qed


lemma fold_const_funpow: "fold (\<lambda>i. g) is s = (g ^^ length is) s"
  by (induction "is" arbitrary: s) (simp_all add: funpow_swap1)

lemma start_state_simps [simp]:
  "noise_texture (start_state t W H) = t"
  "sequence_buffer (start_state t W H) = empty_buffer"
  by (simp_all add: start_state_def)

lemma uniform_texture_simps [simp]:
  "tex_width (uniform_texture w h v) = w" "tex_height (uniform_texture w h v) = h"
  "tex_data (uniform_texture w h v) p = v"
  by (simp_all add: uniform_texture_def)

lemma binary_uniform: "v = 0 \<or> v = 1 \<Longrightarrow> binary (uniform_texture w h v)"
  by (auto simp: binary_def uniform_texture_def)

lemma on_pixels_uniform_1: "on_pixels (uniform_texture w h 1) = {p. in_texture (uniform_texture w h 1) p}"
  by (auto simp: on_pixels_def uniform_texture_def)

lemma card_on_uniform_1: "card (on_pixels (uniform_texture w h 1)) = w * h"
  unfolding on_pixels_uniform_1 card_pixels by simp

lemma wf_all_on: "wf_state (start_state (uniform_texture 64 64 1) 64 64)"
  by (rule wf_start_state) (simp_all add: SampleGroupSize_def fits_def)

lemma dot_texture_simps [simp]:
  "tex_width (dot_texture w h q) = w" "tex_height (dot_texture w h q) = h"
  "tex_data (dot_texture w h q) p = (if p = q then 1 else 0)"
  by (simp_all add: dot_texture_def)

lemma binary_dot: "binary (dot_texture w h q)"
  by (simp add: binary_def)

lemma on_pixels_dot: "in_texture (dot_texture w h q) q \<Longrightarrow> on_pixels (dot_texture w h q) = {q}"
  by (auto simp: on_pixels_def)

lemma wf_dot: "wf_state (start_state (dot_texture 64 64 (3, 5)) 64 64)"
  by (rule wf_start_state) (simp_all add: SampleGroupSize_def fits_def)

lemma card_on_dot: "card (on_pixels (dot_texture 64 64 (3, 5))) = 1"
  by (subst on_pixels_dot) (simp_all add: in_texture_def)



lemma claimed_swap_pair_card:
  assumes be: "bounded_energy energy" and wf: "wf_state st" and bin: "binary (noise_texture st)"
    and c: "0 < card (on_pixels (noise_texture st))"
  shows "card (on_pixels (noise_texture (claimed_swap_pair energy st))) =
         card (on_pixels (noise_texture st))"
proof -
  let ?s1 = "dispatch_kernel energy NoiseTexture MAX_SAMPLE 0 Maxu32 st"
  let ?t = "noise_texture st" and ?t1 = "noise_texture ?s1"
  let ?t2 = "noise_texture (claimed_swap_pair energy st)"
  let ?n = "tex_width ?t * tex_height ?t"
  have e1: "?s1 = fold (\<lambda>i. dispatch_kernel energy NoiseTexture MAX_SAMPLE (store_value MAX_SAMPLE)
                ((\<lambda>_. Maxu32) i)) [0::nat] st"
    by (simp add: store_value_def)
  have b0: "binary (get_texture NoiseTexture st)" using bin by simp
  note r1 = rank_run_any [OF be wf b0 e1, simplified]
  have e2: "claimed_swap_pair energy st = fold (\<lambda>i. dispatch_kernel energy NoiseTexture MIN_SAMPLE
                (store_value MIN_SAMPLE) ((\<lambda>_. Maxu32) i)) [0::nat] ?s1"
    by (simp add: store_value_def claimed_swap_pair_def)
  have b1: "binary (get_texture NoiseTexture ?s1)" using r1 by simp
  have wf1: "wf_state ?s1" using r1 by simp
  note r2 = rank_run_any [OF be wf1 b1 e2, simplified]
  have b2: "binary ?t2" using r2 by simp
  have it1: "in_texture ?t1 = in_texture ?t" using r1 by simp
  have it2: "in_texture ?t2 = in_texture ?t" using r1 r2 by simp
  have sz1: "tex_width ?t1 * tex_height ?t1 = ?n"
    using card_pixels [of ?t1] card_pixels [of ?t] it1 by simp
  have sz2: "tex_width ?t2 * tex_height ?t2 = ?n"
    using card_pixels [of ?t2] card_pixels [of ?t] it2 by simp
  have c1: "card (on_pixels ?t1) = card (on_pixels ?t) - 1"
    using r1 eligible_MAX [OF bin] eligible_MAX [of ?t1] b1 by simp
  have c2: "?n - card (on_pixels ?t2) = ?n - card (on_pixels ?t1) - 1"
    using r2 card_eligible_MIN [OF b2] card_eligible_MIN [of ?t1] b1 sz1 sz2 by simp
  have le: "card (on_pixels ?t) \<le> ?n" "card (on_pixels ?t1) \<le> ?n" "card (on_pixels ?t2) \<le> ?n"
    using card_on_le [of ?t] card_on_le [of ?t1] card_on_le [of ?t2] sz1 sz2 by simp_all
  show ?thesis using c c1 c2 le by auto
qed



lemma size_product_eq:
  "in_texture a = in_texture b \<Longrightarrow> tex_width a * tex_height a = tex_width b * tex_height b"
  using card_pixels [of a] card_pixels [of b] by simp

lemma phases_props:
  assumes be: "bounded_energy energy" and wf: "wf_state st" and bin: "binary (noise_texture st)"
    and P: "card (on_pixels (noise_texture st)) = P"
    and N: "N = tex_width (noise_texture st) * tex_height (noise_texture st)"
    and PN: "P \<le> N div 2" and M: "N \<le> Maxu32"
  defines "s1 \<equiv> first_phase energy P st"
  defines "s2 \<equiv> second_phase energy P (N div 2) s1"
  defines "s3 \<equiv> third_phase energy (N div 2) N s2"
  shows "on_pixels (copy_texture s1) = {}" "noise_texture s1 = noise_texture st"
    "copy_texture s2 = copy_texture s1"
    "card (on_pixels (noise_texture s2)) = N div 2"
    "\<And>k. P \<le> k \<Longrightarrow> sequence_buffer s1 k = sequence_buffer st k"
    "\<And>k. k < P \<or> N div 2 \<le> k \<Longrightarrow> sequence_buffer s2 k = sequence_buffer s1 k"
    "\<And>k. k < N div 2 \<or> N \<le> k \<Longrightarrow> sequence_buffer s3 k = sequence_buffer s2 k"
    "bij_betw (rank_position s3) {..<N} {p. in_texture (noise_texture st) p}"
proof -
  let ?h = "N div 2"
  let ?t = "noise_texture st"
  let ?S = "on_pixels ?t"
  let ?all = "{p. in_texture ?t p}"
  have PM: "P \<le> Maxu32" and hM: "?h \<le> Maxu32" and hN: "?h \<le> N" using PN M by simp_all
  note p1 = first_phase_props [OF be wf bin P PM, folded s1_def]
  show "on_pixels (copy_texture s1) = {}" by (rule p1(4))
  show n1: "noise_texture s1 = ?t" by (rule p1(2))
  show "\<And>k. P \<le> k \<Longrightarrow> sequence_buffer s1 k = sequence_buffer st k" by (rule p1(5))
  have bin1: "binary (noise_texture s1)" and P1: "card (on_pixels (noise_texture s1)) = P"
    and h1: "?h \<le> tex_width (noise_texture s1) * tex_height (noise_texture s1)"
    using bin P hN N by (simp_all add: n1)
  note p2 = second_phase_props [OF be p1(1) bin1 P1 PN h1 hM, folded s2_def, unfolded n1]
  show "copy_texture s2 = copy_texture s1" by (rule p2(2))
  show c2: "card (on_pixels (noise_texture s2)) = ?h" by (rule p2(9))
  show "\<And>k. k < P \<or> ?h \<le> k \<Longrightarrow> sequence_buffer s2 k = sequence_buffer s1 k" by (rule p2(5))
  have N2: "N = tex_width (noise_texture s2) * tex_height (noise_texture s2)"
    using size_product_eq [OF p2(4)] N by simp
  note p3 = third_phase_props [OF be p2(1) p2(3) c2 N2 M, folded s3_def, unfolded p2(4) p2(8)]
  show "\<And>k. k < ?h \<or> N \<le> k \<Longrightarrow> sequence_buffer s3 k = sequence_buffer s2 k" by (rule p3(3))
  let ?T = "rank_position s2 ` {P..<?h}"
  have e1: "\<And>r. r < P \<Longrightarrow> rank_position s3 r = rank_position s1 r"
    using p3(3) p2(5) PN by (simp add: rank_position_def)
  have e2: "\<And>r. r < ?h \<Longrightarrow> rank_position s3 r = rank_position s2 r"
    using p3(3) by (simp add: rank_position_def)
  have b1: "bij_betw (rank_position s3) {..<P} ?S"
    using p1(6) e1 by (subst bij_betw_cong [of _ _ "rank_position s1"]) simp_all
  have b2: "bij_betw (rank_position s3) {P..<?h} ?T"
  proof -
    have "bij_betw (rank_position s2) {P..<?h} ?T" using p2(6) by (simp add: bij_betw_def)
    then show ?thesis using e2 by (subst bij_betw_cong [of _ _ "rank_position s2"]) simp_all
  qed
  have b3: "bij_betw (rank_position s3) {?h..<N} (?all - (?S \<union> ?T))" by (rule p3(4))
  have d12: "?S \<inter> ?T = {}" using p2(7) by auto
  have b12: "bij_betw (rank_position s3) ({..<P} \<union> {P..<?h}) (?S \<union> ?T)"
    by (rule bij_betw_combine [OF b1 b2 d12])
  have b123: "bij_betw (rank_position s3) (({..<P} \<union> {P..<?h}) \<union> {?h..<N})
      ((?S \<union> ?T) \<union> (?all - (?S \<union> ?T)))"
    by (rule bij_betw_combine [OF b12 b3]) auto
  have dom: "({..<P} \<union> {P..<?h}) \<union> {?h..<N} = {..<N}" using PN hN by auto
  have cod: "(?S \<union> ?T) \<union> (?all - (?S \<union> ?T)) = ?all"
    using on_pixels_subset [of ?t] p2(7) by auto
  show "bij_betw (rank_position s3) {..<N} ?all" using b123 by (simp only: dom cod)
qed




lemma dispatch_kernel_sizes:
  "tex_size (backward_texture (dispatch_kernel energy tgt mode v i st)) = tex_size (backward_texture st)"
  "tex_size (get_texture tgt (dispatch_kernel energy tgt mode v i st)) = tex_size (get_texture tgt st)"
  by (cases tgt; simp add: dispatch_kernel_def update_shader_def Let_def tex_size_def
        split: prod.splits)+

lemma starved_tail:
  assumes be: "bounded_energy energy" and wf: "wf_state st" and bin: "binary (copy_texture st)"
    and c: "card (eligible MAX_SAMPLE (copy_texture st)) \<le> length is"
    and ab: "a \<noteq> Maxu32" "b \<noteq> Maxu32" "a \<noteq> b"
  shows "rank_position (fold (\<lambda>i. dispatch_kernel energy CopyTexture MAX_SAMPLE 0 i) (is @ [a, b]) st) a =
         rank_position (fold (\<lambda>i. dispatch_kernel energy CopyTexture MAX_SAMPLE 0 i) (is @ [a, b]) st) b"
proof -
  let ?f = "\<lambda>i. dispatch_kernel energy CopyTexture MAX_SAMPLE (store_value MAX_SAMPLE) i"
  have sv: "store_value MAX_SAMPLE = 0" by (simp add: store_value_def)
  define sD where "sD = fold ?f is st"
  define sE where "sE = ?f a sD"
  define s3 where "s3 = ?f b sE"
  have e: "fold (\<lambda>i. dispatch_kernel energy CopyTexture MAX_SAMPLE 0 i) (is @ [a, b]) st = s3"
    by (simp add: s3_def sE_def sD_def sv)
  have b0: "binary (get_texture CopyTexture st)" using bin by simp
  note rD = rank_run_any [OF be wf b0 sD_def]
  have elD: "eligible MAX_SAMPLE (get_texture CopyTexture sD) = {}"
    using rD c by simp
  have wfD: "wf_state sD" and bD: "binary (get_texture CopyTexture sD)" using rD by simp_all
  have eE: "sE = fold ?f [a] sD" by (simp add: sE_def)
  note rE = rank_run_any [OF be wfD bD eE]
  have elE: "eligible MAX_SAMPLE (get_texture CopyTexture sE) = {}" using rE elD by simp
  have wfE: "wf_state sE" using rE by simp
  have seqE: "sequence_buffer sE a =
      (minus_1e9, update_position (tex_size (backward_texture sD)) (tex_size (get_texture CopyTexture sD)) (0, 0))"
    using dispatch_kernel_starved(3) [OF wfD elD, of energy "store_value MAX_SAMPLE" a] ab(1)
    by (simp add: sE_def)
  have seq3: "sequence_buffer s3 =
      (sequence_buffer sE)(b := (minus_1e9,
         update_position (tex_size (backward_texture sE)) (tex_size (get_texture CopyTexture sE)) (0, 0)))"
    using dispatch_kernel_starved(3) [OF wfE elE, of energy "store_value MAX_SAMPLE" b] ab(2)
    by (simp add: s3_def)
  have sz: "tex_size (backward_texture sE) = tex_size (backward_texture sD)"
      "tex_size (get_texture CopyTexture sE) = tex_size (get_texture CopyTexture sD)"
    unfolding sE_def by (rule dispatch_kernel_sizes)+
  show ?thesis
    unfolding e using seq3 seqE sz ab(3) by (simp add: rank_position_def)
qed

lemma inverse_state:
  assumes wf: "wf_state st" and bin: "binary (noise_texture st)"
  defines "sC \<equiv> st\<lparr>copy_texture := inverse_shader (noise_texture st) (copy_texture st)\<rparr>"
  shows "wf_state sC" "binary (copy_texture sC)"
    "eligible MAX_SAMPLE (copy_texture sC) = {p. in_texture (noise_texture st) p} - on_pixels (noise_texture st)"
proof -
  let ?t = "noise_texture st"
  let ?c = "inverse_shader ?t (copy_texture st)"
  have csz: "tex_width (copy_texture st) = tex_width ?t" "tex_height (copy_texture st) = tex_height ?t"
    using wf by (simp_all add: wf_state_def tex_size_eq_iff)
  have sz: "tex_width ?c = tex_width ?t" "tex_height ?c = tex_height ?t"
    using csz by (simp_all add: inverse_shader_props)
  have itc: "in_texture ?c = in_texture ?t" using sz by (rule in_texture_cong)
  have itc0: "in_texture (copy_texture st) = in_texture ?t" using csz by (rule in_texture_cong)
  have data: "\<And>p. in_texture ?t p \<Longrightarrow> tex_data ?c p = 1 - tex_data ?t p"
    using itc0 by (simp add: inverse_shader_props)
  show "wf_state sC" using wf sz by (simp add: wf_state_def tex_size_eq_iff sC_def)
  show "binary (copy_texture sC)"
    unfolding binary_def sC_def using binaryD [OF bin] data itc by auto
  show "eligible MAX_SAMPLE (copy_texture sC) = {p. in_texture ?t p} - on_pixels ?t"
    unfolding sC_def using binaryD [OF bin] data itc by (auto simp: eligible_def on_pixels_def)
qed

lemma all_on_initial_sequence:
  defines "sA \<equiv> initial_sequence local_energy 4096 (start_state (uniform_texture 64 64 1) 64 64)"
  shows "wf_state sA" "binary (noise_texture sA)" "card (on_pixels (noise_texture sA)) = 4095"
    "tex_width (noise_texture sA) * tex_height (noise_texture sA) = 4096"
proof -
  let ?st = "start_state (uniform_texture 64 64 1) 64 64"
  let ?s1 = "swap_pair local_energy ?st"
  have bin: "binary (noise_texture ?st)" by (simp add: binary_uniform)
  have c: "card (on_pixels (noise_texture ?st)) = 4096" by (simp add: card_on_uniform_1)
  note sp = swap_pair_props [OF bounded_local_energy wf_all_on bin]
  have sz: "tex_width (noise_texture ?s1) * tex_height (noise_texture ?s1) = 4096"
    using size_product_eq [OF sp(3)] by simp
  have c1: "card (on_pixels (noise_texture ?s1)) = 4095" using sp(6) c by simp
  have lt: "card (on_pixels (noise_texture ?s1))
      < tex_width (noise_texture ?s1) * tex_height (noise_texture ?s1)"
    using c1 sz by simp
  have "[0..<4096] = 0 # [Suc 0..<4096]" by (rule upt_conv_Cons) simp
  then have e: "sA = fold (\<lambda>i. swap_pair local_energy) [Suc 0..<4096] ?s1"
    unfolding sA_def by (simp only: initial_sequence_fold fold_simps o_apply)
  note f = fold_swap_pairs [OF bounded_local_energy sp(1,2) lt, of "[Suc 0..<4096]", folded e]
  show "wf_state sA" "binary (noise_texture sA)" using f by simp_all
  show "card (on_pixels (noise_texture sA)) = 4095" using f c1 by simp
  have "in_texture (noise_texture sA) = in_texture (noise_texture ?s1)" using f by simp
  from size_product_eq [OF this] show "tex_width (noise_texture sA) * tex_height (noise_texture sA) = 4096"
    using sz by simp
qed

section \<open>Further properties of a step\<close>

lemma swap_pair_steps:
  assumes be: "bounded_energy energy" and wf: "wf_state s" and bin: "binary (noise_texture s)"
    and off: "card (on_pixels (noise_texture s)) < tex_width (noise_texture s) * tex_height (noise_texture s)"
  shows "\<exists>p q. in_texture (noise_texture s) p \<and> tex_data (noise_texture s) p = 0 \<and>
           noise_texture (dispatch_kernel energy NoiseTexture MIN_SAMPLE 1 Maxu32 s) =
             imageStore (noise_texture s) p 1 \<and>
           in_texture (noise_texture s) q \<and> tex_data (imageStore (noise_texture s) p 1) q = 1 \<and>
           noise_texture (swap_pair energy s) = imageStore (imageStore (noise_texture s) p 1) q 0"
proof -
  let ?t = "noise_texture s"
  let ?s1 = "dispatch_kernel energy NoiseTexture MIN_SAMPLE 1 Maxu32 s"
  have b0: "binary (get_texture NoiseTexture s)" using bin by simp
  have "card (eligible MIN_SAMPLE ?t) \<noteq> 0"
    using card_eligible_MIN [OF bin] off by simp
  then have ne: "eligible MIN_SAMPLE (get_texture NoiseTexture s) \<noteq> {}" by auto
  obtain p where p:
    "p \<in> eligible MIN_SAMPLE (get_texture NoiseTexture s)"
    "get_texture NoiseTexture (dispatch_kernel energy NoiseTexture MIN_SAMPLE (store_value MIN_SAMPLE) Maxu32 s) =
       imageStore (get_texture NoiseTexture s) p (store_value MIN_SAMPLE)"
    "wf_state (dispatch_kernel energy NoiseTexture MIN_SAMPLE (store_value MIN_SAMPLE) Maxu32 s)"
    using rank_step [OF wf be b0, of MIN_SAMPLE Maxu32] ne by metis
  have sv: "store_value MIN_SAMPLE = 1" "store_value MAX_SAMPLE = 0" by (simp_all add: store_value_def)
  have pin: "in_texture ?t p" and p0: "tex_data ?t p = 0"
    using p(1) binaryD [OF bin, of p] by (auto simp: eligible_def)
  have t1: "noise_texture ?s1 = imageStore ?t p 1" using p(2) by (simp add: sv)
  have wf1: "wf_state ?s1" using p(3) by (simp add: sv)
  have bin1: "binary (get_texture NoiseTexture ?s1)"
    using t1 binary_imageStore [OF bin, of 1 p] by simp
  have "p \<in> eligible MAX_SAMPLE (get_texture NoiseTexture ?s1)"
    using pin by (simp add: t1 eligible_def tex_data_imageStore)
  then have ne1: "eligible MAX_SAMPLE (get_texture NoiseTexture ?s1) \<noteq> {}" by auto
  obtain q where q:
    "q \<in> eligible MAX_SAMPLE (get_texture NoiseTexture ?s1)"
    "get_texture NoiseTexture (dispatch_kernel energy NoiseTexture MAX_SAMPLE (store_value MAX_SAMPLE) Maxu32 ?s1) =
       imageStore (get_texture NoiseTexture ?s1) q (store_value MAX_SAMPLE)"
    using rank_step [OF wf1 be bin1, of MAX_SAMPLE Maxu32] ne1 by metis
  have qin: "in_texture ?t q" using q(1) by (simp add: eligible_def t1)
  have q1: "tex_data (imageStore ?t p 1) q = 1"
    using q(1) binaryD [OF bin1 [simplified], of q] by (auto simp: eligible_def t1)
  have t2: "noise_texture (swap_pair energy s) = imageStore (imageStore ?t p 1) q 0"
    using q(2) by (simp add: sv swap_pair_def t1)
  show ?thesis using pin p0 t1 qin q1 t2 by blast
qed






section \<open>Properties of the energy kernel\<close>













subsection \<open>Rounding\<close>




lemma rnd_zero [simp]: "rnd p emin 0 = 0"
  by (simp add: rnd_def)



lemma rnd32_0 [simp]: "rnd32 0 = 0"
  by (simp add: rnd32_def)
















subsection \<open>A kernel whose weight absorbs its entries\<close>

text \<open>For \<open>sigma = 1/8\<close> and \<open>epsilon = 0\<close> in IEEE 754 arithmetic the entry at the origin is 1
  and every other entry is below \<open>2\<^sup>-\<^sup>5\<^sup>9\<close>: the sums of the loop absorb them.\<close>

lemma round_even_nonneg: "0 \<le> r \<Longrightarrow> 0 \<le> round_even r"
  by (simp add: round_even_def)

lemma rnd_nonneg: "0 \<le> x \<Longrightarrow> 0 \<le> rnd p emin x"
  by (simp add: rnd_def Let_def round_even_nonneg)


lemma rnd64_nonneg: "0 \<le> x \<Longrightarrow> 0 \<le> rnd64 x"
  by (simp add: rnd64_def rnd_nonneg)



































section \<open>Claims\<close>







text \<open>C2, counterexample: an on-pixel of energy 2 has weight \<open>+2\<close> in the cluster search, where
  the claim has \<open>-2\<close>.\<close>

theorem search_policy_counterexample:
  "sample_weight MAX_SAMPLE 1 2 \<noteq> claimed_weight MAX_SAMPLE 1 2"
  by simp

text \<open>
  C2 (as the code has it).  With the energy inside the range that \<open>-1e9\<close> bounds, the search
  of the cluster shader (\<open>MAX_SAMPLE\<close>, dispatched with value 0.0) returns an on-pixel of
  greatest energy, the arg-max of \<open>+energy\<close>; the search of the void shader (\<open>MIN_SAMPLE\<close>,
  dispatched with value 1.0) returns an off-pixel of least energy, the arg-max of \<open>-energy\<close>.
  While an eligible pixel exists no ineligible pixel wins; when none exists the winner is
  \<open>(0, 0)\<close> with weight \<open>-1e9\<close>.
\<close>

theorem search_policy:
  assumes "SampleGroupSize dvd tex_width t0" "SampleGroupSize dvd tex_height t0"
    and "energy_in_range t0 t1"
  shows "(eligible mode t0 \<noteq> {} \<longrightarrow>
            snd (extremal_search mode t0 t1 buf 0) \<in> eligible mode t0 \<and>
            (\<forall>q\<in>eligible mode t0.
               case mode of
                 MAX_SAMPLE \<Rightarrow> texelFetch t1 q \<le> texelFetch t1 (snd (extremal_search mode t0 t1 buf 0))
               | MIN_SAMPLE \<Rightarrow> texelFetch t1 (snd (extremal_search mode t0 t1 buf 0)) \<le> texelFetch t1 q)) \<and>
         (eligible mode t0 = {} \<longrightarrow> extremal_search mode t0 t1 buf 0 = (minus_1e9, (0, 0)))"
proof (intro conjI impI)
  define r where "r = extremal_search mode t0 t1 buf 0"
  note sp = extremal_search_props [OF assms(1,2), where mode = mode and ?t1.0 = t1 and buf = buf,
      folded r_def]
  have wt: "\<And>p. p \<in> eligible mode t0 \<Longrightarrow>
      fst (pixel_lane mode t0 t1 p) = (case mode of MAX_SAMPLE \<Rightarrow> texelFetch t1 p
                                       | MIN_SAMPLE \<Rightarrow> - texelFetch t1 p)"
    by (cases mode) (auto simp: eligible_def pixel_lane_def texelFetch_def)
  have wn: "\<And>p. in_texture t0 p \<Longrightarrow> p \<notin> eligible mode t0 \<Longrightarrow>
      fst (pixel_lane mode t0 t1 p) = minus_1e9"
    using sample_weight_ineligible [of _ mode t0] by (simp add: pixel_lane_def texelFetch_def)
  {
    assume "eligible mode t0 = {}"
    then have "\<forall>p. in_texture t0 p \<longrightarrow> fst (pixel_lane mode t0 t1 p) \<le> minus_1e9"
      using wn by auto
    then show "extremal_search mode t0 t1 buf 0 = (minus_1e9, (0, 0))"
      using sp(4) by (simp add: r_def)
  }
  assume ne: "eligible mode t0 \<noteq> {}"
  then obtain g where g: "g \<in> eligible mode t0" by blast
  then have gin: "in_texture t0 g" by (simp add: eligible_def)
  have "\<bar>texelFetch t1 g\<bar> < 1000000000" using assms(3) gin unfolding energy_in_range_def by blast
  then have "minus_1e9 < fst (pixel_lane mode t0 t1 g)"
    using wt [OF g] by (cases mode) (simp_all add: minus_1e9_def)
  also have "\<dots> \<le> fst r" by (rule sp(2) [OF gin])
  finally have big: "minus_1e9 < fst r" .
  then obtain p where p: "in_texture t0 p" "r = pixel_lane mode t0 t1 p" using sp(3) by auto
  have pe: "p \<in> eligible mode t0" using big p wn [OF p(1)] by auto
  have sr: "snd r = p" using p(2) by (simp add: pixel_lane_def)
  show "snd (extremal_search mode t0 t1 buf 0) \<in> eligible mode t0"
    using pe sr by (simp add: r_def)
  show "\<forall>q\<in>eligible mode t0.
       case mode of
         MAX_SAMPLE \<Rightarrow> texelFetch t1 q \<le> texelFetch t1 (snd (extremal_search mode t0 t1 buf 0))
       | MIN_SAMPLE \<Rightarrow> texelFetch t1 (snd (extremal_search mode t0 t1 buf 0)) \<le> texelFetch t1 q"
  proof
    fix q assume q: "q \<in> eligible mode t0"
    then have "in_texture t0 q" by (simp add: eligible_def)
    then have "fst (pixel_lane mode t0 t1 q) \<le> fst (pixel_lane mode t0 t1 p)"
      using sp(2) p(2) by simp
    then show "case mode of
         MAX_SAMPLE \<Rightarrow> texelFetch t1 q \<le> texelFetch t1 (snd (extremal_search mode t0 t1 buf 0))
       | MIN_SAMPLE \<Rightarrow> texelFetch t1 (snd (extremal_search mode t0 t1 buf 0)) \<le> texelFetch t1 q"
      using wt [OF q] wt [OF pe] sr by (cases mode) (simp_all add: r_def)
  qed
qed

theorem search_policy_witness:
  "SampleGroupSize dvd tex_width (dot_texture 64 64 (3, 5)) \<and>
   SampleGroupSize dvd tex_height (dot_texture 64 64 (3, 5)) \<and>
   energy_in_range (dot_texture 64 64 (3, 5)) (uniform_texture 64 64 7) \<and>
   snd (extremal_search MAX_SAMPLE (dot_texture 64 64 (3, 5)) (uniform_texture 64 64 7)
          empty_buffer 0) = (3, 5)"
proof -
  have h: "SampleGroupSize dvd tex_width (dot_texture 64 64 (3, 5))"
    "SampleGroupSize dvd tex_height (dot_texture 64 64 (3, 5))"
    "energy_in_range (dot_texture 64 64 (3, 5)) (uniform_texture 64 64 7)"
    by (simp_all add: SampleGroupSize_def energy_in_range_def texelFetch_def)
  have e: "eligible MAX_SAMPLE (dot_texture 64 64 (3, 5)) = {(3, 5)}"
    by (auto simp: eligible_def in_texture_def)
  from search_policy [OF h, of MAX_SAMPLE empty_buffer]
  have "snd (extremal_search MAX_SAMPLE (dot_texture 64 64 (3, 5)) (uniform_texture 64 64 7)
          empty_buffer 0) \<in> eligible MAX_SAMPLE (dot_texture 64 64 (3, 5))"
    using e by blast
  then show ?thesis using h e by simp
qed







text \<open>C3, counterexample: one swap pair on a 64 \<times> 64 pattern with every pixel on.  The code
  (void search first) ends with 4095 on-pixels; the order of the claim (cluster search first)
  ends with 4096.\<close>

theorem initial_sequence_order_counterexample:
  "initial_sequence local_energy 1 (start_state (uniform_texture 64 64 1) 64 64) \<noteq>
   claimed_initial_sequence local_energy 1 (start_state (uniform_texture 64 64 1) 64 64)"
proof -
  let ?st = "start_state (uniform_texture 64 64 1) 64 64"
  have bin: "binary (noise_texture ?st)" by (simp add: binary_uniform)
  have c: "card (on_pixels (noise_texture ?st)) = 4096" by (simp add: card_on_uniform_1)
  have sz: "tex_width (noise_texture ?st) * tex_height (noise_texture ?st) = 4096"
    by simp
  have "initial_sequence local_energy 1 ?st = swap_pair local_energy ?st"
    by (simp add: initial_sequence_fold)
  then have "card (on_pixels (noise_texture (initial_sequence local_energy 1 ?st))) = 4095"
    using swap_pair_props(6) [OF bounded_local_energy wf_all_on bin] c sz by simp
  moreover have "card (on_pixels (noise_texture (claimed_swap_pair local_energy ?st))) = 4096"
    using claimed_swap_pair_card [OF bounded_local_energy wf_all_on bin] c by simp
  ultimately show ?thesis by (auto simp: claimed_initial_sequence_def)
qed

text \<open>
  C3 (as the code has it).  The initial sequence is exactly \<open>P\<close> swap pairs, a fixed budget with
  no convergence test, and it records no rank: the sequence buffer is left as it was.  For a
  pattern with an off-pixel (energy within the range of the weights, sizes as \<^verbatim>\<open>dispatch\<close> sets
  them up with the remap in range), every pair \<open>k < P\<close> first turns an off-pixel \<open>p\<close> on, by the
  void search, and then turns an on-pixel \<open>q\<close> of the resulting pattern off, by the cluster
  search.
\<close>

theorem initial_sequence_swaps:
  "initial_sequence energy P st = (swap_pair energy ^^ P) st \<and>
   sequence_buffer (initial_sequence energy P st) = sequence_buffer st \<and>
   (bounded_energy energy \<and> wf_state st \<and> binary (noise_texture st) \<and>
    card (on_pixels (noise_texture st)) < tex_width (noise_texture st) * tex_height (noise_texture st) \<longrightarrow>
    (\<forall>k<P. \<exists>p q.
       in_texture (noise_texture ((swap_pair energy ^^ k) st)) p \<and>
       tex_data (noise_texture ((swap_pair energy ^^ k) st)) p = 0 \<and>
       noise_texture (dispatch_kernel energy NoiseTexture MIN_SAMPLE 1 Maxu32 ((swap_pair energy ^^ k) st)) =
         imageStore (noise_texture ((swap_pair energy ^^ k) st)) p 1 \<and>
       in_texture (noise_texture ((swap_pair energy ^^ k) st)) q \<and>
       tex_data (imageStore (noise_texture ((swap_pair energy ^^ k) st)) p 1) q = 1 \<and>
       noise_texture ((swap_pair energy ^^ Suc k) st) =
         imageStore (imageStore (noise_texture ((swap_pair energy ^^ k) st)) p 1) q 0))"
proof -
  have a: "initial_sequence energy P st = (swap_pair energy ^^ P) st"
    by (simp add: initial_sequence_fold fold_const_funpow)
  have u: "\<And>tgt mode v s. sequence_buffer (dispatch_kernel energy tgt mode v Maxu32 s) = sequence_buffer s"
  proof -
    fix tgt mode v s
    show "sequence_buffer (dispatch_kernel energy tgt mode v Maxu32 s) = sequence_buffer s"
      by (cases tgt) (simp_all add: dispatch_kernel_def update_shader_def Let_def split: prod.splits)
  qed
  have b: "\<And>s. sequence_buffer ((swap_pair energy ^^ k) s) = sequence_buffer s" for k
    by (induction k) (simp_all add: swap_pair_def u)
  have c: "\<exists>p q.
       in_texture (noise_texture ((swap_pair energy ^^ k) st)) p \<and>
       tex_data (noise_texture ((swap_pair energy ^^ k) st)) p = 0 \<and>
       noise_texture (dispatch_kernel energy NoiseTexture MIN_SAMPLE 1 Maxu32 ((swap_pair energy ^^ k) st)) =
         imageStore (noise_texture ((swap_pair energy ^^ k) st)) p 1 \<and>
       in_texture (noise_texture ((swap_pair energy ^^ k) st)) q \<and>
       tex_data (imageStore (noise_texture ((swap_pair energy ^^ k) st)) p 1) q = 1 \<and>
       noise_texture ((swap_pair energy ^^ Suc k) st) =
         imageStore (imageStore (noise_texture ((swap_pair energy ^^ k) st)) p 1) q 0"
    if h: "bounded_energy energy" "wf_state st" "binary (noise_texture st)"
      "card (on_pixels (noise_texture st)) < tex_width (noise_texture st) * tex_height (noise_texture st)"
    for k
  proof -
    let ?s = "(swap_pair energy ^^ k) st"
    have e: "?s = fold (\<lambda>i. swap_pair energy) [0..<k] st" by (simp add: fold_const_funpow)
    note f = fold_swap_pairs [OF h, of "[0..<k]", folded e]
    have sz: "tex_width (noise_texture ?s) * tex_height (noise_texture ?s) =
        tex_width (noise_texture st) * tex_height (noise_texture st)"
      using card_pixels [of "noise_texture ?s"] card_pixels [of "noise_texture st"] f by simp
    have off: "card (on_pixels (noise_texture ?s)) < tex_width (noise_texture ?s) * tex_height (noise_texture ?s)"
      using f h(4) sz by simp
    have wf: "wf_state ?s" and bin: "binary (noise_texture ?s)" using f by simp_all
    show ?thesis using swap_pair_steps [OF h(1) wf bin off] by simp
  qed
  show ?thesis using a b c by (simp only: simp_thms) blast
qed

theorem initial_sequence_swaps_witness:
  "bounded_energy local_energy \<and> wf_state (start_state (dot_texture 64 64 (3, 5)) 64 64) \<and>
   binary (noise_texture (start_state (dot_texture 64 64 (3, 5)) 64 64)) \<and>
   card (on_pixels (noise_texture (start_state (dot_texture 64 64 (3, 5)) 64 64))) < 64 * 64 \<and>
   (\<exists>p q. tex_data (dot_texture 64 64 (3, 5)) p = 0 \<and>
      tex_data (imageStore (dot_texture 64 64 (3, 5)) p 1) q = 1 \<and>
      noise_texture (initial_sequence local_energy 1 (start_state (dot_texture 64 64 (3, 5)) 64 64)) =
        imageStore (imageStore (dot_texture 64 64 (3, 5)) p 1) q 0)"
proof -
  let ?st = "start_state (dot_texture 64 64 (3, 5)) 64 64"
  have b: "binary (noise_texture ?st)" by (simp add: binary_dot)
  have lt: "card (on_pixels (noise_texture ?st))
           < tex_width (noise_texture ?st) * tex_height (noise_texture ?st)"
    by (simp add: card_on_dot)
  have i: "initial_sequence local_energy 1 ?st = (swap_pair local_energy ^^ Suc 0) ?st"
    using initial_sequence_swaps [of local_energy 1 ?st] by simp
  have "\<forall>k<1. \<exists>p q.
       in_texture (noise_texture ((swap_pair local_energy ^^ k) ?st)) p \<and>
       tex_data (noise_texture ((swap_pair local_energy ^^ k) ?st)) p = 0 \<and>
       noise_texture (dispatch_kernel local_energy NoiseTexture MIN_SAMPLE 1 Maxu32 ((swap_pair local_energy ^^ k) ?st)) =
         imageStore (noise_texture ((swap_pair local_energy ^^ k) ?st)) p 1 \<and>
       in_texture (noise_texture ((swap_pair local_energy ^^ k) ?st)) q \<and>
       tex_data (imageStore (noise_texture ((swap_pair local_energy ^^ k) ?st)) p 1) q = 1 \<and>
       noise_texture ((swap_pair local_energy ^^ Suc k) ?st) =
         imageStore (imageStore (noise_texture ((swap_pair local_energy ^^ k) ?st)) p 1) q 0"
    using initial_sequence_swaps [of local_energy 1 ?st] bounded_local_energy wf_dot b lt by blast
  then have "\<exists>p q. tex_data (dot_texture 64 64 (3, 5)) p = 0 \<and>
      tex_data (imageStore (dot_texture 64 64 (3, 5)) p 1) q = 1 \<and>
      noise_texture ((swap_pair local_energy ^^ Suc 0) ?st) =
        imageStore (imageStore (dot_texture 64 64 (3, 5)) p 1) q 0"
    by (auto simp del: funpow.simps dot_texture_simps simp add: start_state_simps)
  then show ?thesis using bounded_local_energy wf_dot b i by (simp del: funpow.simps dot_texture_simps add: card_on_dot)
qed

text \<open>
  C5 (as the code has it).  For every pattern with fewer on-pixels than pixels, one swap pair
  leaves the number of on-pixels unchanged, and so does the initial sequence of any number of
  swap pairs, in particular of \<open>P\<close> pairs for a seed with \<open>P\<close> on-pixels.
\<close>

theorem initial_sequence_conserves_on_pixels:
  assumes "bounded_energy energy" "wf_state st" "binary (noise_texture st)"
    and "card (on_pixels (noise_texture st))
           < tex_width (noise_texture st) * tex_height (noise_texture st)"
  shows "card (on_pixels (noise_texture (swap_pair energy st))) = card (on_pixels (noise_texture st)) \<and>
         card (on_pixels (noise_texture (initial_sequence energy k st))) =
           card (on_pixels (noise_texture st)) \<and>
         binary (noise_texture (initial_sequence energy k st))"
  using swap_pair_props(6) [OF assms(1-3)] assms(4)
    fold_swap_pairs [OF assms, of "[0..<k]"]
  by (simp add: initial_sequence_fold)

theorem initial_sequence_conserves_on_pixels_witness:
  "bounded_energy local_energy \<and> wf_state (start_state (dot_texture 64 64 (3, 5)) 64 64) \<and>
   binary (noise_texture (start_state (dot_texture 64 64 (3, 5)) 64 64)) \<and>
   card (on_pixels (noise_texture (start_state (dot_texture 64 64 (3, 5)) 64 64))) = 1 \<and>
   card (on_pixels (noise_texture
      (initial_sequence local_energy 1 (start_state (dot_texture 64 64 (3, 5)) 64 64)))) = 1"
proof -
  let ?st = "start_state (dot_texture 64 64 (3, 5)) 64 64"
  have b: "binary (noise_texture ?st)" by (simp add: binary_dot)
  have c: "card (on_pixels (noise_texture ?st)) = 1" by (simp add: card_on_dot)
  have lt: "card (on_pixels (noise_texture ?st))
           < tex_width (noise_texture ?st) * tex_height (noise_texture ?st)"
    by (simp add: card_on_dot)
  show ?thesis
    using initial_sequence_conserves_on_pixels [OF bounded_local_energy wf_dot b lt, of 1]
      bounded_local_energy wf_dot b c by simp
qed

text \<open>C5, counterexample: the 64 \<times> 64 seed with every pixel on, \<open>P = 4096\<close>.  The first void
  search finds no off-pixel, the cluster search that follows turns a pixel off, and the pattern
  has 4095 on-pixels after the \<open>P\<close> swap pairs.\<close>

theorem initial_sequence_all_on_counterexample:
  "card (on_pixels (noise_texture (start_state (uniform_texture 64 64 1) 64 64))) = 4096 \<and>
   card (on_pixels (noise_texture
      (initial_sequence local_energy 4096 (start_state (uniform_texture 64 64 1) 64 64)))) = 4095"
  using all_on_initial_sequence(3) by (simp add: card_on_uniform_1)

text \<open>
  C1 (as the code has it).  For a layer that starts from a pattern with \<open>P\<close> on-pixels,
  \<open>P \<le> pixelCount div 2\<close>, the first phase writes the ranks \<open>P - 1\<close> down to \<open>0\<close> and no other
  slot, the second phase only the ranks \<open>P\<close> to \<open>pixelCount div 2 - 1\<close>, the third phase only
  the ranks \<open>pixelCount div 2\<close> to \<open>pixelCount - 1\<close>, and at the end the positions recorded for
  the ranks \<open>0\<close> to \<open>pixelCount - 1\<close> are a bijection onto the pixels of the image.
\<close>

theorem rank_bijection:
  assumes "bounded_energy energy" "wf_state st" "binary (noise_texture st)"
    and "card (on_pixels (noise_texture st)) = P"
    and "N = tex_width (noise_texture st) * tex_height (noise_texture st)"
    and "P \<le> N div 2" "N \<le> Maxu32"
  shows "first_phase energy P st =
           fold (\<lambda>i. dispatch_kernel energy CopyTexture MAX_SAMPLE 0 (P - i - 1)) [0..<P]
             (st\<lparr>copy_texture := noise_texture st\<rparr>) \<and>
         (\<forall>k. P \<le> k \<longrightarrow>
            sequence_buffer (first_phase energy P st) k = sequence_buffer st k) \<and>
         (\<forall>k. k < P \<or> N div 2 \<le> k \<longrightarrow>
            sequence_buffer (second_phase energy P (N div 2) (first_phase energy P st)) k =
            sequence_buffer (first_phase energy P st) k) \<and>
         (\<forall>k. k < N div 2 \<or> N \<le> k \<longrightarrow>
            sequence_buffer (layer_phases energy P N st) k =
            sequence_buffer (second_phase energy P (N div 2) (first_phase energy P st)) k) \<and>
         bij_betw (rank_position (layer_phases energy P N st)) {..<N}
           {p. in_texture (noise_texture st) p}"
  using phases_props(5-8) [OF assms]
  by (simp add: layer_phases_def first_phase_fold store_value_def)

theorem rank_bijection_witness:
  "bounded_energy local_energy \<and> wf_state (start_state (dot_texture 64 64 (3, 5)) 64 64) \<and>
   binary (noise_texture (start_state (dot_texture 64 64 (3, 5)) 64 64)) \<and>
   card (on_pixels (noise_texture (start_state (dot_texture 64 64 (3, 5)) 64 64))) = 1 \<and>
   bij_betw
     (rank_position (layer_phases local_energy 1 4096 (start_state (dot_texture 64 64 (3, 5)) 64 64)))
     {..<4096} {p. in_texture (dot_texture 64 64 (3, 5)) p}"
proof -
  let ?st = "start_state (dot_texture 64 64 (3, 5)) 64 64"
  have b: "binary (noise_texture ?st)" by (simp add: binary_dot)
  have c: "card (on_pixels (noise_texture ?st)) = 1" by (simp add: card_on_dot)
  have n: "4096 = tex_width (noise_texture ?st) * tex_height (noise_texture ?st)" by simp
  have l: "(1::nat) \<le> 4096 div 2" "(4096::nat) \<le> Maxu32" by (simp_all add: Maxu32_def)
  from rank_bijection [OF bounded_local_energy wf_dot b c n l]
  have "bij_betw (rank_position (layer_phases local_energy 1 4096 ?st)) {..<4096}
      {p. in_texture (noise_texture ?st) p}"
    by blast
  then show ?thesis using bounded_local_energy wf_dot b c by simp
qed

text \<open>
  C4 (as the code has it).  The first phase empties a copy of the pattern (\<open>copy_texture\<close> has no
  on-pixel after it) and leaves \<open>noise_texture\<close> as it was, with its \<open>P\<close> on-pixels.  The second
  phase performs its steps on \<open>noise_texture\<close>, not on the emptied copy, and ends with exactly
  \<open>pixelCount div 2\<close> on-pixels.
\<close>

theorem second_phase_pattern:
  assumes "bounded_energy energy" "wf_state st" "binary (noise_texture st)"
    and "card (on_pixels (noise_texture st)) = P"
    and "N = tex_width (noise_texture st) * tex_height (noise_texture st)"
    and "P \<le> N div 2" "N \<le> Maxu32"
  shows "on_pixels (copy_texture (first_phase energy P st)) = {} \<and>
         noise_texture (first_phase energy P st) = noise_texture st \<and>
         second_phase energy P (N div 2) (first_phase energy P st) =
           fold (\<lambda>i. dispatch_kernel energy NoiseTexture MIN_SAMPLE 1 i) [P..<N div 2]
             (first_phase energy P st) \<and>
         copy_texture (second_phase energy P (N div 2) (first_phase energy P st)) =
           copy_texture (first_phase energy P st) \<and>
         card (on_pixels (noise_texture
           (second_phase energy P (N div 2) (first_phase energy P st)))) = N div 2"
  using phases_props(1-4) [OF assms]
  by (simp add: second_phase_fold store_value_def)

theorem second_phase_pattern_witness:
  "bounded_energy local_energy \<and> wf_state (start_state (dot_texture 64 64 (3, 5)) 64 64) \<and>
   binary (noise_texture (start_state (dot_texture 64 64 (3, 5)) 64 64)) \<and>
   card (on_pixels (noise_texture (start_state (dot_texture 64 64 (3, 5)) 64 64))) = 1 \<and>
   card (on_pixels (noise_texture (second_phase local_energy 1 2048
      (first_phase local_energy 1 (start_state (dot_texture 64 64 (3, 5)) 64 64))))) = 2048"
proof -
  let ?st = "start_state (dot_texture 64 64 (3, 5)) 64 64"
  have b: "binary (noise_texture ?st)" by (simp add: binary_dot)
  have c: "card (on_pixels (noise_texture ?st)) = 1" by (simp add: card_on_dot)
  have n: "4096 = tex_width (noise_texture ?st) * tex_height (noise_texture ?st)" by simp
  have l: "(1::nat) \<le> 4096 div 2" "(4096::nat) \<le> Maxu32" by (simp_all add: Maxu32_def)
  from second_phase_pattern [OF bounded_local_energy wf_dot b c n l]
  have "card (on_pixels (noise_texture (second_phase local_energy 1 (4096 div 2)
      (first_phase local_energy 1 ?st)))) = 4096 div 2"
    by blast
  then show ?thesis using bounded_local_energy wf_dot b c by simp
qed

text \<open>C4, counterexample: a 64 \<times> 64 pattern with one on-pixel.  The second phase of the code
  differs from a second phase run on the pattern that the first phase emptied: the former ends
  with 2048 on-pixels in \<open>noise_texture\<close>, the latter leaves \<open>noise_texture\<close> with one.\<close>

theorem second_phase_pattern_counterexample:
  "second_phase local_energy 1 2048
     (first_phase local_energy 1 (start_state (dot_texture 64 64 (3, 5)) 64 64)) \<noteq>
   claimed_second_phase local_energy 1 2048
     (first_phase local_energy 1 (start_state (dot_texture 64 64 (3, 5)) 64 64))"
proof -
  let ?st = "start_state (dot_texture 64 64 (3, 5)) 64 64"
  let ?s1 = "first_phase local_energy 1 ?st"
  have b: "binary (noise_texture ?st)" by (simp add: binary_dot)
  have c: "card (on_pixels (noise_texture ?st)) = 1" by (simp add: card_on_dot)
  have n: "4096 = tex_width (noise_texture ?st) * tex_height (noise_texture ?st)" by simp
  have l: "(1::nat) \<le> 4096 div 2" "(4096::nat) \<le> Maxu32" by (simp_all add: Maxu32_def)
  note pp = phases_props [OF bounded_local_energy wf_dot b c n l]
  have l1: "(1::nat) \<le> Maxu32" by (simp add: Maxu32_def)
  note p1 = first_phase_props [OF bounded_local_energy wf_dot b c l1]
  have code: "card (on_pixels (noise_texture (second_phase local_energy 1 2048 ?s1))) = 2048"
    using pp(4) by simp
  have e: "claimed_second_phase local_energy 1 2048 ?s1 =
      fold (\<lambda>i. dispatch_kernel local_energy CopyTexture MIN_SAMPLE (store_value MIN_SAMPLE) i)
        [1..<2048] ?s1"
    by (simp only: claimed_second_phase_def batch_loop_fold store_value_def sample_kernel.case)
  have bc: "binary (get_texture CopyTexture ?s1)" using p1(3) by simp
  have "noise_texture (claimed_second_phase local_energy 1 2048 ?s1) = noise_texture ?s1"
    using rank_run_any [OF bounded_local_energy p1(1) bc e] by simp
  then have "card (on_pixels (noise_texture (claimed_second_phase local_energy 1 2048 ?s1))) = 1"
    using p1(2) c by simp
  with code show ?thesis by auto
qed

text \<open>C1, counterexample: the 64 \<times> 64 seed with every pixel on, \<open>P = 4096 > pixelCount div 2\<close>.
  After the initial sequence and the three phases, the ranks 4094 and 4095 hold the same
  position.\<close>

theorem rank_bijection_counterexample:
  "rank_position (layer_phases local_energy 4096 4096
      (initial_sequence local_energy 4096 (start_state (uniform_texture 64 64 1) 64 64))) 4094 =
   rank_position (layer_phases local_energy 4096 4096
      (initial_sequence local_energy 4096 (start_state (uniform_texture 64 64 1) 64 64))) 4095"
proof -
  define sA where "sA = initial_sequence local_energy 4096 (start_state (uniform_texture 64 64 1) 64 64)"
  note A = all_on_initial_sequence [folded sA_def]
  define s1 where "s1 = first_phase local_energy 4096 sA"
  have e1: "s1 = fold (\<lambda>i. dispatch_kernel local_energy CopyTexture MAX_SAMPLE (store_value MAX_SAMPLE)
      (4096 - i - 1)) [0..<4096] (sA\<lparr>copy_texture := noise_texture sA\<rparr>)"
    unfolding s1_def by (rule first_phase_fold)
  have wf0: "wf_state (sA\<lparr>copy_texture := noise_texture sA\<rparr>)"
    using A(1) by (simp add: wf_state_def)
  have b0: "binary (get_texture CopyTexture (sA\<lparr>copy_texture := noise_texture sA\<rparr>))"
    using A(2) by simp
  note r1 = rank_run_any [OF bounded_local_energy wf0 b0 e1]
  have wf1: "wf_state s1" and n1: "noise_texture s1 = noise_texture sA" using r1 by simp_all
  have s2: "second_phase local_energy 4096 (4096 div 2) s1 = s1"
    by (simp add: second_phase_fold)
  define sC where "sC = s1\<lparr>copy_texture := inverse_shader (noise_texture s1) (copy_texture s1)\<rparr>"
  have bin1: "binary (noise_texture s1)" using A(2) n1 by simp
  note C = inverse_state [OF wf1 bin1, folded sC_def]
  have "card ({p. in_texture (noise_texture s1) p} - on_pixels (noise_texture s1)) = 1"
    using A(3,4) on_pixels_subset [of "noise_texture sA"] 
    by (simp add: card_Diff_subset card_pixels n1)
  then have cC: "card (eligible MAX_SAMPLE (copy_texture sC)) \<le> length [2048..<4094]"
    using C(3) by simp
  have split: "[2048..<4096] = [2048..<4094] @ [4094, 4095]"
  proof -
    have "[2048..<4094 + 2] = [2048..<4094] @ [4094..<4094 + 2]"
      by (rule upt_add_eq_append) simp
    moreover have "[4094..<4094 + 2] = [4094, 4095]" by (simp add: upt_rec)
    ultimately show ?thesis by (simp del: upt_rec_numeral)
  qed
  have e3: "layer_phases local_energy 4096 4096 sA =
      fold (\<lambda>i. dispatch_kernel local_energy CopyTexture MAX_SAMPLE 0 i) ([2048..<4094] @ [4094, 4095]) sC"
    unfolding layer_phases_def s1_def [symmetric] s2 third_phase_fold sC_def [symmetric] split [symmetric]
    by (simp add: store_value_def del: upt_rec_numeral)
  have ab: "(4094::nat) \<noteq> Maxu32" "(4095::nat) \<noteq> Maxu32" "(4094::nat) \<noteq> 4095"
    by (simp_all add: Maxu32_def)
  show ?thesis
    unfolding sA_def [symmetric] e3
    by (rule starved_tail [OF bounded_local_energy C(1,2) cC ab])
qed







end
